theory Spec2Isabelle
  imports Main "HOL-Library.Word"
begin

unbundle bit_operations_syntax

section \<open>Build-time constants\<close>

text \<open>
  \<^verbatim>\<open>drm_proc.c\<close> includes \<^verbatim>\<open>drmP.h\<close> and the kernel headers, from which it takes
  \<^verbatim>\<open>PAGE_SHIFT\<close>, \<^verbatim>\<open>PAGE_SIZE\<close>, the width of \<^verbatim>\<open>unsigned long\<close>, \<^verbatim>\<open>DRM_PROC_LIMIT\<close>,
  \<^verbatim>\<open>DRM_MAX_ORDER\<close>, \<^verbatim>\<open>DRM_DEBUG_CODE\<close> and whether \<^verbatim>\<open>__i386__\<close> is defined. None of
  them is defined in the file itself, so every function of the model takes them as a
  parameter, the record \<open>kconfig\<close>. \<open>PAGE_SIZE\<close> is \<open>1 << PAGE_SHIFT\<close>, as in every
  kernel.
\<close>

record kconfig =
  PAGE_SHIFT :: nat
  BITS_PER_LONG :: nat
  DRM_PROC_LIMIT :: int
  DRM_MAX_ORDER :: nat
  DRM_DEBUG_CODE :: bool
  ARCH_I386 :: bool

definition PAGE_SIZE :: "kconfig \<Rightarrow> nat" where
  "PAGE_SIZE cfg = 2 ^ PAGE_SHIFT cfg"

text \<open>
  The configuration of an x86-64 kernel with 4 KiB pages, used for concrete runs:
  \<^verbatim>\<open>drmP.h\<close> has \<^verbatim>\<open>DRM_PROC_LIMIT (PAGE_SIZE-80)\<close> and \<^verbatim>\<open>DRM_MAX_ORDER 22\<close>.
\<close>

definition x86_64 :: kconfig where
  "x86_64 = \<lparr>PAGE_SHIFT = 12, BITS_PER_LONG = 64, DRM_PROC_LIMIT = 4016,
     DRM_MAX_ORDER = 22, DRM_DEBUG_CODE = False, ARCH_I386 = False\<rparr>"

section \<open>C integers\<close>

text \<open>
  \<^verbatim>\<open>int\<close>, \<^verbatim>\<open>unsigned int\<close>, \<^verbatim>\<open>atomic_t\<close> and the enums are 32-bit words, read with
  \<open>sint\<close> where the code uses them signed and with \<open>unat\<close> where unsigned;
  \<^verbatim>\<open>uint64_t\<close> is a 64-bit word. \<^verbatim>\<open>unsigned long\<close> and \<^verbatim>\<open>size_t\<close> have the width
  \<open>BITS_PER_LONG\<close>: such a value is a \<open>nat\<close>, and the conversions and the
  arithmetic on it have the wrap-around written out.
\<close>

type_synonym c_int = "32 word"
type_synonym uint64_t = "64 word"

definition to_ulong :: "kconfig \<Rightarrow> int \<Rightarrow> nat" where
  "to_ulong cfg i = nat (i mod 2 ^ BITS_PER_LONG cfg)"

definition as_long :: "kconfig \<Rightarrow> nat \<Rightarrow> int" where
  "as_long cfg n =
     (if n mod 2 ^ BITS_PER_LONG cfg < 2 ^ (BITS_PER_LONG cfg - 1)
      then int (n mod 2 ^ BITS_PER_LONG cfg)
      else int (n mod 2 ^ BITS_PER_LONG cfg) - 2 ^ BITS_PER_LONG cfg)"

definition atomic_inc :: "c_int \<Rightarrow> c_int" where
  "atomic_inc v = v + 1"

definition atomic_dec :: "c_int \<Rightarrow> c_int" where
  "atomic_dec v = v - 1"

section \<open>sprintf\<close>

text \<open>
  The conversions the format strings of the file use: \<^verbatim>\<open>%Nd\<close>, \<^verbatim>\<open>%Nu\<close>, \<^verbatim>\<open>%0Nx\<close>,
  \<^verbatim>\<open>%N.Ms\<close> and \<^verbatim>\<open>%p\<close>. A width pads on the left and never truncates. The kernel's
  \<^verbatim>\<open>sprintf\<close> prints a pointer as a hexadecimal number, zero-padded to twice the size
  of a pointer.
\<close>

abbreviation NL :: string where
  "NL \<equiv> [CHR 0x0A]"

abbreviation TAB :: string where
  "TAB \<equiv> [CHR 0x09]"

definition digit_char :: "nat \<Rightarrow> char" where
  "digit_char d = ''0123456789abcdef'' ! d"

fun dec_nat :: "nat \<Rightarrow> string" where
  "dec_nat n = (if n < 10 then [digit_char n] else dec_nat (n div 10) @ [digit_char (n mod 10)])"

declare dec_nat.simps [simp del]

fun hex_nat :: "nat \<Rightarrow> string" where
  "hex_nat n = (if n < 16 then [digit_char n] else hex_nat (n div 16) @ [digit_char (n mod 16)])"

declare hex_nat.simps [simp del]

definition dec_int :: "int \<Rightarrow> string" where
  "dec_int i = (if i < 0 then CHR ''-'' # dec_nat (nat (- i)) else dec_nat (nat i))"

definition pad_left :: "char \<Rightarrow> nat \<Rightarrow> string \<Rightarrow> string" where
  "pad_left c w s = replicate (w - length s) c @ s"

definition fmt_d :: "nat \<Rightarrow> int \<Rightarrow> string" where
  "fmt_d w i = pad_left CHR '' '' w (dec_int i)"

definition fmt_u :: "nat \<Rightarrow> nat \<Rightarrow> string" where
  "fmt_u w n = pad_left CHR '' '' w (dec_nat n)"

definition fmt_0x :: "nat \<Rightarrow> nat \<Rightarrow> string" where
  "fmt_0x w n = pad_left CHR ''0'' w (hex_nat n)"

definition fmt_s :: "nat \<Rightarrow> nat \<Rightarrow> string \<Rightarrow> string" where
  "fmt_s w p s = pad_left CHR '' '' w (take p s)"

definition fmt_p :: "kconfig \<Rightarrow> nat \<Rightarrow> string" where
  "fmt_p cfg n = fmt_0x (BITS_PER_LONG cfg div 4) n"

section \<open>The read protocol\<close>

text \<open>
  A \<^verbatim>\<open>read_proc\<close> callback gets \<^verbatim>\<open>(buf, start, offset, request, eof, data)\<close>. It
  returns an \<^verbatim>\<open>int\<close> and writes \<^verbatim>\<open>*start\<close>, \<^verbatim>\<open>*eof\<close> and the buffer. The result of
  the model holds all four: \<open>out_buf\<close> is what the call wrote from \<^verbatim>\<open>buf[0]\<close> on
  (each \<^verbatim>\<open>sprintf\<close> writes at \<^verbatim>\<open>&buf[len]\<close> and adds its length to \<^verbatim>\<open>len\<close>, so
  \<^verbatim>\<open>len\<close> is the length of \<open>out_buf\<close>; the terminating NUL that \<^verbatim>\<open>sprintf\<close> puts
  at \<^verbatim>\<open>buf[len]\<close> is not part of it), \<open>start_off\<close> is the index \<^verbatim>\<open>*start\<close> points at,
  \<open>None\<close> when the call leaves \<^verbatim>\<open>*start\<close> alone.

  \<^verbatim>\<open>offset\<close>, \<^verbatim>\<open>request\<close> and \<^verbatim>\<open>len\<close> are mathematical integers. \<^verbatim>\<open>offset\<close> is compared
  with the limit before it is used, \<^verbatim>\<open>request\<close> is at most a page in the calls the proc
  file system makes, and \<^verbatim>\<open>len\<close> is at most one formatted text above the limit: the sum
  \<^verbatim>\<open>request + offset\<close> and the difference \<^verbatim>\<open>len - offset\<close> are far from the bounds of
  \<^verbatim>\<open>off_t\<close> and \<^verbatim>\<open>int\<close>.
\<close>

record proc_result =
  ret_val :: int
  eof_flag :: bool
  start_off :: "int option"
  out_buf :: string

text \<open>
  Modelled from the spec: the macros \<^verbatim>\<open>DRM_PROC_PRINT\<close> and \<^verbatim>\<open>DRM_PROC_PRINT_RET\<close>, which
  \<^verbatim>\<open>drmP.h\<close> defines and the sources do not include. The spec gives the text emission
  buffer "an append-formatted-text operation and an overflow flag" and has every
  generator "respect a fixed maximum output size". The model is the pattern that
  \<^verbatim>\<open>drm_gem_one_name_info\<close> writes out by hand, the \<^verbatim>\<open>sprintf\<close> at \<^verbatim>\<open>&nid->buf[nid->len]\<close>
  followed by the test \<^verbatim>\<open>nid->len > DRM_PROC_LIMIT\<close>, on the variables \<^verbatim>\<open>buf\<close>, \<^verbatim>\<open>len\<close>,
  \<^verbatim>\<open>offset\<close> and \<^verbatim>\<open>eof\<close> that every function using the macro declares: the macro appends
  the formatted text at \<^verbatim>\<open>&buf[len]\<close>, adds its length to \<^verbatim>\<open>len\<close> and, when \<^verbatim>\<open>len\<close> is
  then above \<^verbatim>\<open>DRM_PROC_LIMIT\<close>, runs the statement that is the first argument of
  \<^verbatim>\<open>DRM_PROC_PRINT_RET\<close> (\<^verbatim>\<open>atomic_dec(&q->use_count)\<close> at its one use), sets \<^verbatim>\<open>*eof\<close> and
  returns \<^verbatim>\<open>len - offset\<close> from the function, as the last line of every generator
  does. \<open>Inl\<close> is this early return, \<open>Inr\<close> the buffer to go on with; the caller of the
  model runs the statement of \<^verbatim>\<open>DRM_PROC_PRINT_RET\<close> on the \<open>Inl\<close> branch.
\<close>

definition DRM_PROC_PRINT :: "kconfig \<Rightarrow> int \<Rightarrow> string \<Rightarrow> string \<Rightarrow> proc_result + string" where
  "DRM_PROC_PRINT cfg offset b s =
     (let b' = b @ s in
      if int (length b') > DRM_PROC_LIMIT cfg
      then Inl \<lparr>ret_val = int (length b') - offset, eof_flag = True,
                start_off = Some offset, out_buf = b'\<rparr>
      else Inr b')"

text \<open>A run of \<^verbatim>\<open>DRM_PROC_PRINT\<close> statements, in order: the first early return ends it.\<close>

fun proc_prints :: "kconfig \<Rightarrow> int \<Rightarrow> string list \<Rightarrow> string \<Rightarrow> proc_result + string" where
  "proc_prints cfg offset [] b = Inr b"
| "proc_prints cfg offset (s # ss) b =
     (case DRM_PROC_PRINT cfg offset b s of
        Inl r \<Rightarrow> Inl r
      | Inr b' \<Rightarrow> proc_prints cfg offset ss b')"

text \<open>
  The first lines of every generator:
  \<^verbatim>\<open>if (offset > DRM_PROC_LIMIT) { *eof = 1; return 0; }\<close>
\<close>

definition proc_past_limit :: proc_result where
  "proc_past_limit = \<lparr>ret_val = 0, eof_flag = True, start_off = None, out_buf = []\<rparr>"

text \<open>
  The last lines of every generator, after \<^verbatim>\<open>*start = &buf[offset]; *eof = 0;\<close>
  \<^verbatim>\<open>if (len > request + offset) return request; *eof = 1; return len - offset;\<close>
\<close>

definition proc_tail :: "int \<Rightarrow> int \<Rightarrow> string \<Rightarrow> proc_result" where
  "proc_tail offset request b =
     (if int (length b) > request + offset
      then \<lparr>ret_val = request, eof_flag = False, start_off = Some offset, out_buf = b\<rparr>
      else \<lparr>ret_val = int (length b) - offset, eof_flag = True,
             start_off = Some offset, out_buf = b\<rparr>)"

text \<open>
  A generator whose body is a run of \<^verbatim>\<open>DRM_PROC_PRINT\<close> statements: the limit test,
  the prints from \<^verbatim>\<open>len = 0\<close>, the tail.
\<close>

definition proc_read :: "kconfig \<Rightarrow> int \<Rightarrow> int \<Rightarrow> string list \<Rightarrow> proc_result" where
  "proc_read cfg offset request ps =
     (if offset > DRM_PROC_LIMIT cfg then proc_past_limit
      else case proc_prints cfg offset ps [] of
             Inl r \<Rightarrow> r
           | Inr b \<Rightarrow> proc_tail offset request b)"

text \<open>
  Modelled from the spec: the reader's side of a call, which is the proc file system's
  and not in the sources. The specification gives the read as
  \<^verbatim>\<open>read(offset, maxLength) -> (bytes, endOfReport)\<close>: the reader takes the bytes from
  \<^verbatim>\<open>*start = &buf[offset]\<close> on, as many as the call returns and never more than the
  \<^verbatim>\<open>request\<close> it made. A return value that is not positive hands over nothing.
\<close>

definition returned_bytes :: "int \<Rightarrow> int \<Rightarrow> proc_result \<Rightarrow> string" where
  "returned_bytes offset request r =
     take (nat (min (ret_val r) request)) (drop (nat offset) (out_buf r))"

section \<open>The device\<close>

record drm_map =
  map_offset :: nat
  map_size :: nat
  map_type :: c_int
  map_flags :: c_int
  map_mtrr :: c_int

record drm_map_list =
  rl_map :: "drm_map option"
  user_token :: nat

record drm_queue =
  q_flags :: c_int
  use_count :: c_int
  finalization :: c_int
  block_count :: c_int
  block_read :: c_int
  block_write :: c_int
  read_queue_active :: bool
  write_queue_active :: bool
  flush_queue_active :: bool
  waitlist_bufcount :: int

record drm_buf_entry =
  buf_size :: c_int
  buf_count :: c_int
  freelist_count :: c_int
  seg_count :: c_int
  page_order :: c_int

record drm_device_dma =
  bufs :: "nat \<Rightarrow> drm_buf_entry"
  buflist :: "c_int list"

record drm_fence_manager =
  fm_initialized :: bool
  fm_count :: c_int

record drm_buffer_manager =
  bm_initialized :: bool
  bm_count :: c_int
  cur_pages :: nat

record memctl =
  used_mem :: uint64_t
  used_emer :: uint64_t
  low_mem :: uint64_t
  high_mem :: uint64_t
  emer_mem :: uint64_t

record drm_file =
  authenticated :: bool
  minor_index :: c_int
  pid :: c_int
  uid :: c_int
  magic :: c_int
  ioctl_count :: nat

record vm_area_struct =
  vm_start :: nat
  vm_end :: nat
  vm_flags :: nat
  vm_pgoff :: nat
  vm_page_prot :: nat

record drm_vma_entry =
  pt_vma :: "vm_area_struct option"
  pt_pid :: c_int

record drm_gem_object =
  obj_name :: c_int
  obj_size :: nat
  handlecount :: c_int
  refcount :: c_int

text \<open>
  What the generators read of \<^verbatim>\<open>struct drm_device\<close>. \<open>maplist\<close> and \<open>filelist\<close> are
  the kernel lists in list order; \<open>queuelist\<close> holds the \<^verbatim>\<open>queue_count\<close> queues of
  \<^verbatim>\<open>dev->queuelist\<close>, \<open>buflist\<close> the \<^verbatim>\<open>list\<close> field of the \<^verbatim>\<open>dma->buf_count\<close> buffers of
  \<^verbatim>\<open>dma->buflist\<close>; \<open>object_name_idr\<close> holds the objects of the idr in the order
  \<^verbatim>\<open>idr_for_each\<close> visits them; \<open>mem\<close> is what \<^verbatim>\<open>drm_query_memctl\<close> stores through its
  five pointers; \<open>high_memory\<close> is the kernel variable of that name and
  \<open>high_memory_phys\<close> what \<^verbatim>\<open>virt_to_phys\<close> returns for it.
\<close>

record drm_device =
  driver_name :: string
  pci_name :: string
  unique :: "string option"
  maplist :: "drm_map_list list"
  queuelist :: "drm_queue list"
  dma :: "drm_device_dma option"
  fm :: drm_fence_manager
  bm :: drm_buffer_manager
  mem :: memctl
  filelist :: "drm_file list"
  object_name_idr :: "drm_gem_object list"
  object_count :: c_int
  object_memory :: c_int
  pin_count :: c_int
  pin_memory :: c_int
  gtt_memory :: c_int
  gtt_total :: c_int
  vma_count :: c_int
  vmalist :: "drm_vma_entry list"
  high_memory :: nat
  high_memory_phys :: nat

section \<open>The generators\<close>

text \<open>
  Each generator is the limit test, a run of \<^verbatim>\<open>DRM_PROC_PRINT\<close> statements and the
  tail. No argument of a print depends on \<^verbatim>\<open>len\<close> or on the buffer, so the body of a
  generator is given as the list of the texts its prints format, in the order the
  code reaches them; \<open>proc_read\<close> runs the list through the macro.
\<close>

subsection \<open>\<^verbatim>\<open>name\<close>\<close>

definition name_prints :: "drm_device \<Rightarrow> string list" where
  "name_prints dev =
     [case unique dev of
        Some u \<Rightarrow> driver_name dev @ '' '' @ pci_name dev @ '' '' @ u @ NL
      | None \<Rightarrow> driver_name dev @ '' '' @ pci_name dev @ NL]"

definition drm_name_info :: "kconfig \<Rightarrow> drm_device \<Rightarrow> int \<Rightarrow> int \<Rightarrow> proc_result" where
  "drm_name_info cfg dev offset request = proc_read cfg offset request (name_prints dev)"

subsection \<open>\<^verbatim>\<open>vm\<close>\<close>

definition types :: "string list" where
  "types = [''FB'', ''REG'', ''SHM'', ''AGP'', ''SG'', ''PCI'']"

definition vm_type :: "drm_map \<Rightarrow> string" where
  "vm_type m =
     (if sint (map_type m) < 0 \<or> sint (map_type m) > 5 then ''??''
      else types ! nat (sint (map_type m)))"

definition vm_line :: "c_int \<Rightarrow> drm_map \<Rightarrow> drm_map_list \<Rightarrow> string" where
  "vm_line i m r =
     fmt_d 4 (sint i) @ '' 0x'' @ fmt_0x 8 (map_offset m) @ '' 0x'' @ fmt_0x 8 (map_size m)
     @ '' '' @ fmt_s 4 4 (vm_type m) @ ''  0x'' @ fmt_0x 2 (unat (map_flags m))
     @ '' 0x'' @ fmt_0x 8 (user_token r) @ '' ''"

definition vm_mtrr :: "drm_map \<Rightarrow> string" where
  "vm_mtrr m =
     (if sint (map_mtrr m) < 0 then ''none'' @ NL else fmt_d 4 (sint (map_mtrr m)) @ NL)"

fun vm_loop :: "c_int \<Rightarrow> drm_map_list list \<Rightarrow> string list" where
  "vm_loop i [] = []"
| "vm_loop i (r # rs) =
     (case rl_map r of
        None \<Rightarrow> vm_loop i rs
      | Some m \<Rightarrow> vm_line i m r # vm_mtrr m # vm_loop (i + 1) rs)"

definition vm_header :: string where
  "vm_header =
     ''slot'' @ TAB @ '' offset'' @ TAB @ ''      size type flags'' @ TAB @ '' address mtrr''
     @ NL @ NL"

definition vm_prints :: "drm_device \<Rightarrow> string list" where
  "vm_prints dev = vm_header # vm_loop 0 (maplist dev)"

definition drm__vm_info :: "kconfig \<Rightarrow> drm_device \<Rightarrow> int \<Rightarrow> int \<Rightarrow> proc_result" where
  "drm__vm_info cfg dev offset request = proc_read cfg offset request (vm_prints dev)"

subsection \<open>\<^verbatim>\<open>queues\<close>\<close>

definition queues_header :: string where
  "queues_header =
     ''  ctx/flags   use   fin   blk/rw/rwf  wait    flushed'' @ TAB @ ''   queued      locks''
     @ NL @ NL"

definition queue_line :: "c_int \<Rightarrow> drm_queue \<Rightarrow> string" where
  "queue_line i q =
     fmt_d 5 (sint i) @ ''/0x'' @ fmt_0x 3 (unat (q_flags q)) @ '' ''
     @ fmt_d 5 (sint (use_count q)) @ '' '' @ fmt_d 5 (sint (finalization q)) @ '' ''
     @ fmt_d 5 (sint (block_count q)) @ ''/''
     @ [if block_read q \<noteq> 0 then CHR ''r'' else CHR ''-'']
     @ [if block_write q \<noteq> 0 then CHR ''w'' else CHR ''-''] @ ''/''
     @ [if read_queue_active q then CHR ''r'' else CHR ''-'']
     @ [if write_queue_active q then CHR ''w'' else CHR ''-'']
     @ [if flush_queue_active q then CHR ''f'' else CHR ''-''] @ '' ''
     @ fmt_d 5 (waitlist_bufcount q) @ NL"

text \<open>
  The loop over the queues changes the device: \<^verbatim>\<open>atomic_inc(&q->use_count)\<close>, the
  print, whose early return runs \<^verbatim>\<open>atomic_dec(&q->use_count)\<close> first, and the
  \<^verbatim>\<open>atomic_dec\<close> after the print. The loop returns the queues as it leaves them.
\<close>

fun queues_loop ::
  "kconfig \<Rightarrow> int \<Rightarrow> c_int \<Rightarrow> drm_queue list \<Rightarrow> string \<Rightarrow> drm_queue list \<times> (proc_result + string)"
where
  "queues_loop cfg offset i [] b = ([], Inr b)"
| "queues_loop cfg offset i (q # qs) b =
     (let q1 = q\<lparr>use_count := atomic_inc (use_count q)\<rparr> in
      case DRM_PROC_PRINT cfg offset b (queue_line i q1) of
        Inl r \<Rightarrow> (q1\<lparr>use_count := atomic_dec (use_count q1)\<rparr> # qs, Inl r)
      | Inr b' \<Rightarrow>
          (let q2 = q1\<lparr>use_count := atomic_dec (use_count q1)\<rparr>;
               (qs', res) = queues_loop cfg offset (i + 1) qs b'
           in (q2 # qs', res)))"

definition drm__queues_info ::
  "kconfig \<Rightarrow> drm_device \<Rightarrow> int \<Rightarrow> int \<Rightarrow> drm_device \<times> proc_result"
where
  "drm__queues_info cfg dev offset request =
     (if offset > DRM_PROC_LIMIT cfg then (dev, proc_past_limit)
      else case DRM_PROC_PRINT cfg offset [] queues_header of
             Inl r \<Rightarrow> (dev, r)
           | Inr b \<Rightarrow>
               (case queues_loop cfg offset 0 (queuelist dev) b of
                  (qs', Inl r) \<Rightarrow> (dev\<lparr>queuelist := qs'\<rparr>, r)
                | (qs', Inr b') \<Rightarrow> (dev\<lparr>queuelist := qs'\<rparr>, proc_tail offset request b')))"

subsection \<open>\<^verbatim>\<open>bufs\<close>\<close>

text \<open>
  The two computed columns of a row. \<^verbatim>\<open>seg_count * (1 << page_order)\<close> is \<^verbatim>\<open>int\<close>
  arithmetic. For the kilobytes the \<^verbatim>\<open>int\<close> product is converted to
  \<^verbatim>\<open>unsigned long\<close>, multiplied by \<^verbatim>\<open>PAGE_SIZE\<close> and divided by 1024 there, and
  printed with \<^verbatim>\<open>%5ld\<close>, as a \<^verbatim>\<open>long\<close>.
\<close>

definition bufs_pages :: "drm_buf_entry \<Rightarrow> c_int" where
  "bufs_pages e = seg_count e * push_bit (nat (sint (page_order e))) 1"

definition bufs_kB :: "kconfig \<Rightarrow> drm_buf_entry \<Rightarrow> int" where
  "bufs_kB cfg e =
     as_long cfg
       (((to_ulong cfg (sint (bufs_pages e)) * PAGE_SIZE cfg) mod 2 ^ BITS_PER_LONG cfg) div 1024)"

definition bufs_row :: "kconfig \<Rightarrow> nat \<Rightarrow> drm_buf_entry \<Rightarrow> string" where
  "bufs_row cfg i e =
     fmt_d 2 (int i) @ '' '' @ fmt_d 8 (sint (buf_size e)) @ '' '' @ fmt_d 5 (sint (buf_count e))
     @ '' '' @ fmt_d 5 (sint (freelist_count e)) @ '' '' @ fmt_d 5 (sint (seg_count e))
     @ '' '' @ fmt_d 5 (sint (bufs_pages e)) @ '' '' @ fmt_d 5 (bufs_kB cfg e) @ NL"

definition bufs_rows :: "kconfig \<Rightarrow> drm_device_dma \<Rightarrow> string list" where
  "bufs_rows cfg d =
     concat (map (\<lambda>i. if buf_count (bufs d i) \<noteq> 0 then [bufs_row cfg i (bufs d i)] else [])
                 [0 ..< Suc (DRM_MAX_ORDER cfg)])"

fun bufs_list :: "nat \<Rightarrow> c_int list \<Rightarrow> string list" where
  "bufs_list i [] = []"
| "bufs_list i (l # ls) =
     (if i \<noteq> 0 \<and> i mod 32 = 0 then [NL] else []) @ ('' '' @ dec_int (sint l)) # bufs_list (Suc i) ls"

definition bufs_header :: string where
  "bufs_header = '' o     size count  free'' @ TAB @ '' segs pages    kB'' @ NL @ NL"

definition bufs_prints :: "kconfig \<Rightarrow> drm_device_dma \<Rightarrow> string list" where
  "bufs_prints cfg d =
     bufs_header # bufs_rows cfg d @ [NL] @ bufs_list 0 (buflist d) @ [NL]"

definition drm__bufs_info :: "kconfig \<Rightarrow> drm_device \<Rightarrow> int \<Rightarrow> int \<Rightarrow> proc_result" where
  "drm__bufs_info cfg dev offset request =
     (case dma dev of
        None \<Rightarrow> proc_past_limit
      | Some d \<Rightarrow> proc_read cfg offset request (bufs_prints cfg d))"

subsection \<open>\<^verbatim>\<open>objects\<close>\<close>

definition objects_head :: "drm_device \<Rightarrow> string list" where
  "objects_head dev =
     [''Object accounting:'' @ NL @ NL,
      if fm_initialized (fm dev)
      then ''Number of active fence objects: '' @ dec_int (sint (fm_count (fm dev))) @ ''.'' @ NL
      else ''Fence objects are not supported by this driver'' @ NL]
     @ (if bm_initialized (bm dev)
        then [''Number of active buffer objects: '' @ dec_int (sint (bm_count (bm dev))) @ ''.''
                @ NL @ NL]
        else [])
     @ [''Memory accounting:'' @ NL @ NL,
        if bm_initialized (bm dev)
        then ''Number of locked GATT pages: '' @ dec_nat (cur_pages (bm dev)) @ ''.'' @ NL
        else ''Buffer objects are not supported by this driver.'' @ NL]"

definition used_mem_line :: "kconfig \<Rightarrow> uint64_t \<Rightarrow> string" where
  "used_mem_line cfg v =
     (if unat v > (16 * PAGE_SIZE cfg) mod 2 ^ BITS_PER_LONG cfg
      then ''Used object memory is ''
           @ dec_nat (to_ulong cfg (uint (drop_bit (PAGE_SHIFT cfg) v))) @ '' pages.'' @ NL
      else ''Used object memory is '' @ dec_nat (to_ulong cfg (uint v)) @ '' bytes.'' @ NL)"

definition used_emer_line :: "kconfig \<Rightarrow> uint64_t \<Rightarrow> string" where
  "used_emer_line cfg v =
     (if unat v > (16 * PAGE_SIZE cfg) mod 2 ^ BITS_PER_LONG cfg
      then ''Used emergency memory is ''
           @ dec_nat (to_ulong cfg (uint (drop_bit (PAGE_SHIFT cfg) v))) @ '' pages.'' @ NL
      else ''Used emergency memory is '' @ dec_nat (to_ulong cfg (uint v)) @ '' bytes.''
           @ NL @ NL)"

definition objects_tail :: "kconfig \<Rightarrow> drm_device \<Rightarrow> string list" where
  "objects_tail cfg dev =
     [''Soft object memory usage threshold is ''
        @ dec_nat (to_ulong cfg (uint (drop_bit (PAGE_SHIFT cfg) (low_mem (mem dev)))))
        @ '' pages.'' @ NL,
      ''Hard object memory usage threshold is ''
        @ dec_nat (to_ulong cfg (uint (drop_bit (PAGE_SHIFT cfg) (high_mem (mem dev)))))
        @ '' pages.'' @ NL,
      ''Emergency root only memory usage threshold is ''
        @ dec_nat (to_ulong cfg (uint (drop_bit (PAGE_SHIFT cfg) (emer_mem (mem dev)))))
        @ '' pages.'' @ NL,
      NL]"

definition objects_prints :: "kconfig \<Rightarrow> drm_device \<Rightarrow> string list" where
  "objects_prints cfg dev =
     objects_head dev
     @ [used_mem_line cfg (used_mem (mem dev)), used_emer_line cfg (used_emer (mem dev))]
     @ objects_tail cfg dev"

definition drm__objects_info :: "kconfig \<Rightarrow> drm_device \<Rightarrow> int \<Rightarrow> int \<Rightarrow> proc_result" where
  "drm__objects_info cfg dev offset request =
     proc_read cfg offset request (objects_prints cfg dev)"

subsection \<open>\<^verbatim>\<open>clients\<close>\<close>

definition client_line :: "drm_file \<Rightarrow> string" where
  "client_line priv =
     [if authenticated priv then CHR ''y'' else CHR ''n''] @ '' ''
     @ fmt_d 3 (sint (minor_index priv)) @ '' '' @ fmt_d 5 (sint (pid priv)) @ '' ''
     @ fmt_d 5 (sint (uid priv)) @ '' '' @ fmt_u 10 (unat (magic priv)) @ '' ''
     @ fmt_u 10 (ioctl_count priv) @ NL"

definition clients_header :: string where
  "clients_header =
     ''a dev'' @ TAB @ ''pid    uid'' @ TAB @ ''magic'' @ TAB @ ''  ioctls'' @ NL @ NL"

definition clients_prints :: "drm_device \<Rightarrow> string list" where
  "clients_prints dev = clients_header # map client_line (filelist dev)"

definition drm__clients_info :: "kconfig \<Rightarrow> drm_device \<Rightarrow> int \<Rightarrow> int \<Rightarrow> proc_result" where
  "drm__clients_info cfg dev offset request =
     proc_read cfg offset request (clients_prints dev)"

subsection \<open>\<^verbatim>\<open>gem_names\<close>\<close>

record drm_gem_name_info_data =
  nid_len :: int
  nid_buf :: string
  nid_eof :: bool

definition gem_line :: "kconfig \<Rightarrow> drm_gem_object \<Rightarrow> string" where
  "gem_line cfg obj =
     fmt_d 6 (sint (obj_name obj)) @ fmt_d 9 (as_long cfg (obj_size obj))
     @ fmt_d 8 (sint (handlecount obj)) @ fmt_d 9 (sint (refcount obj)) @ NL"

text \<open>
  The callback. It returns an \<^verbatim>\<open>int\<close> and changes \<^verbatim>\<open>*nid\<close>; its first statement,
  \<^verbatim>\<open>DRM_INFO("name %d size %zd\n", ...)\<close>, adds a message to the kernel log, the
  second component of the state.
\<close>

definition gem_info_msg :: "kconfig \<Rightarrow> drm_gem_object \<Rightarrow> string" where
  "gem_info_msg cfg obj =
     ''name '' @ dec_int (sint (obj_name obj)) @ '' size '' @ dec_int (as_long cfg (obj_size obj))
     @ NL"

definition drm_gem_one_name_info ::
  "kconfig \<Rightarrow> drm_gem_object \<Rightarrow> drm_gem_name_info_data \<times> string list
     \<Rightarrow> int \<times> drm_gem_name_info_data \<times> string list"
where
  "drm_gem_one_name_info cfg obj st =
     (let nid = fst st; klog = snd st @ [gem_info_msg cfg obj] in
      if nid_eof nid then (0, nid, klog)
      else
        (let s = gem_line cfg obj;
             nid1 = nid\<lparr>nid_len := nid_len nid + int (length s), nid_buf := nid_buf nid @ s\<rparr>
         in if nid_len nid1 > DRM_PROC_LIMIT cfg then (0, nid1\<lparr>nid_eof := True\<rparr>, klog)
            else (0, nid1, klog)))"

text \<open>
  \<^verbatim>\<open>idr_for_each\<close> calls the callback on every entry, in order, stops at the first
  call that does not return 0 and returns what that call returned, 0 after the last
  entry.
\<close>

fun idr_for_each ::
  "kconfig \<Rightarrow> drm_gem_object list \<Rightarrow> drm_gem_name_info_data \<times> string list
     \<Rightarrow> int \<times> drm_gem_name_info_data \<times> string list"
where
  "idr_for_each cfg [] st = (0, st)"
| "idr_for_each cfg (obj # objs) st =
     (case drm_gem_one_name_info cfg obj st of
        (r, st') \<Rightarrow> if r \<noteq> 0 then (r, st') else idr_for_each cfg objs st')"

definition gem_header :: string where
  "gem_header = ''  name     size handles refcount'' @ NL"

text \<open>
  The first half of \<^verbatim>\<open>drm_gem_name_info\<close>: the header, written with \<^verbatim>\<open>sprintf\<close> and
  not tested against the limit, and the walk. \<open>klog\<close> is the kernel log before.
\<close>

definition gem_walk ::
  "kconfig \<Rightarrow> drm_gem_object list \<Rightarrow> string list \<Rightarrow> int \<times> drm_gem_name_info_data \<times> string list"
where
  "gem_walk cfg objs klog =
     idr_for_each cfg objs
       (\<lparr>nid_len = int (length gem_header), nid_buf = gem_header, nid_eof = False\<rparr>, klog)"

definition drm_gem_name_info :: "kconfig \<Rightarrow> drm_device \<Rightarrow> int \<Rightarrow> int \<Rightarrow> proc_result" where
  "drm_gem_name_info cfg dev offset request =
     (if offset > DRM_PROC_LIMIT cfg then proc_past_limit
      else
        (let nid = fst (snd (gem_walk cfg (object_name_idr dev) [])) in
         if nid_len nid > request + offset
         then \<lparr>ret_val = request, eof_flag = False, start_off = Some offset,
                out_buf = nid_buf nid\<rparr>
         else \<lparr>ret_val = nid_len nid - offset, eof_flag = True, start_off = Some offset,
                out_buf = nid_buf nid\<rparr>))"

subsection \<open>\<^verbatim>\<open>gem_objects\<close>\<close>

definition gem_object_prints :: "drm_device \<Rightarrow> string list" where
  "gem_object_prints dev =
     [dec_int (sint (object_count dev)) @ '' objects'' @ NL,
      dec_int (sint (object_memory dev)) @ '' object bytes'' @ NL,
      dec_int (sint (pin_count dev)) @ '' pinned'' @ NL,
      dec_int (sint (pin_memory dev)) @ '' pin bytes'' @ NL,
      dec_int (sint (gtt_memory dev)) @ '' gtt bytes'' @ NL,
      dec_int (sint (gtt_total dev)) @ '' gtt total'' @ NL]"

definition drm_gem_object_info :: "kconfig \<Rightarrow> drm_device \<Rightarrow> int \<Rightarrow> int \<Rightarrow> proc_result" where
  "drm_gem_object_info cfg dev offset request =
     proc_read cfg offset request (gem_object_prints dev)"

subsection \<open>\<^verbatim>\<open>vma\<close>\<close>

text \<open>
  \<^verbatim>\<open>drm__vma_info\<close> is compiled when \<^verbatim>\<open>DRM_DEBUG_CODE\<close> is set. The bits it tests are
  constants of the kernel headers \<^verbatim>\<open>linux/mm.h\<close> and, for the i386 page protection,
  \<^verbatim>\<open>asm/pgtable.h\<close>.
\<close>

definition VM_READ :: nat where "VM_READ = 0x0001"
definition VM_WRITE :: nat where "VM_WRITE = 0x0002"
definition VM_EXEC :: nat where "VM_EXEC = 0x0004"
definition VM_MAYSHARE :: nat where "VM_MAYSHARE = 0x0080"
definition VM_LOCKED :: nat where "VM_LOCKED = 0x2000"
definition VM_IO :: nat where "VM_IO = 0x4000"

definition PAGE_PRESENT :: nat where "PAGE_PRESENT = 0x001"
definition PAGE_RW :: nat where "PAGE_RW = 0x002"
definition PAGE_USER :: nat where "PAGE_USER = 0x004"
definition PAGE_PWT :: nat where "PAGE_PWT = 0x008"
definition PAGE_PCD :: nat where "PAGE_PCD = 0x010"
definition PAGE_ACCESSED :: nat where "PAGE_ACCESSED = 0x020"
definition PAGE_DIRTY :: nat where "PAGE_DIRTY = 0x040"
definition PAGE_PSE :: nat where "PAGE_PSE = 0x080"
definition PAGE_GLOBAL :: nat where "PAGE_GLOBAL = 0x100"

definition flag_char :: "nat \<Rightarrow> nat \<Rightarrow> char \<Rightarrow> char \<Rightarrow> string" where
  "flag_char v m yes no = [if v AND m \<noteq> 0 then yes else no]"

definition vma_header :: "kconfig \<Rightarrow> drm_device \<Rightarrow> string" where
  "vma_header cfg dev =
     ''vma use count: '' @ dec_int (sint (vma_count dev)) @ '', high_memory = ''
     @ fmt_p cfg (high_memory dev) @ '', 0x'' @ fmt_0x 8 (high_memory_phys dev) @ NL"

definition vma_line :: "c_int \<Rightarrow> vm_area_struct \<Rightarrow> string" where
  "vma_line p vma =
     NL @ fmt_d 5 (sint p) @ '' 0x'' @ fmt_0x 8 (vm_start vma) @ ''-0x'' @ fmt_0x 8 (vm_end vma)
     @ '' '' @ flag_char (vm_flags vma) VM_READ CHR ''r'' CHR ''-''
     @ flag_char (vm_flags vma) VM_WRITE CHR ''w'' CHR ''-''
     @ flag_char (vm_flags vma) VM_EXEC CHR ''x'' CHR ''-''
     @ flag_char (vm_flags vma) VM_MAYSHARE CHR ''s'' CHR ''p''
     @ flag_char (vm_flags vma) VM_LOCKED CHR ''l'' CHR ''-''
     @ flag_char (vm_flags vma) VM_IO CHR ''i'' CHR ''-''
     @ '' 0x'' @ fmt_0x 8 (vm_pgoff vma) @ ''000''"

definition vma_pgprot :: "vm_area_struct \<Rightarrow> string" where
  "vma_pgprot vma =
     '' '' @ flag_char (vm_page_prot vma) PAGE_PRESENT CHR ''p'' CHR ''-''
     @ flag_char (vm_page_prot vma) PAGE_RW CHR ''w'' CHR ''r''
     @ flag_char (vm_page_prot vma) PAGE_USER CHR ''u'' CHR ''s''
     @ flag_char (vm_page_prot vma) PAGE_PWT CHR ''t'' CHR ''b''
     @ flag_char (vm_page_prot vma) PAGE_PCD CHR ''u'' CHR ''c''
     @ flag_char (vm_page_prot vma) PAGE_ACCESSED CHR ''a'' CHR ''-''
     @ flag_char (vm_page_prot vma) PAGE_DIRTY CHR ''d'' CHR ''-''
     @ flag_char (vm_page_prot vma) PAGE_PSE CHR ''m'' CHR ''k''
     @ flag_char (vm_page_prot vma) PAGE_GLOBAL CHR ''g'' CHR ''l''"

fun vma_loop :: "kconfig \<Rightarrow> drm_vma_entry list \<Rightarrow> string list" where
  "vma_loop cfg [] = []"
| "vma_loop cfg (pt # pts) =
     (case pt_vma pt of
        None \<Rightarrow> vma_loop cfg pts
      | Some vma \<Rightarrow>
          vma_line (pt_pid pt) vma
          # (if ARCH_I386 cfg then [vma_pgprot vma] else []) @ NL # vma_loop cfg pts)"

definition vma_prints :: "kconfig \<Rightarrow> drm_device \<Rightarrow> string list" where
  "vma_prints cfg dev = vma_header cfg dev # vma_loop cfg (vmalist dev)"

definition drm__vma_info :: "kconfig \<Rightarrow> drm_device \<Rightarrow> int \<Rightarrow> int \<Rightarrow> proc_result" where
  "drm__vma_info cfg dev offset request = proc_read cfg offset request (vma_prints cfg dev)"

section \<open>The proc list\<close>

text \<open>
  The table \<^verbatim>\<open>drm_proc_list\<close>. \<^verbatim>\<open>drm_mem_info\<close> is defined in another file: the reports
  of the model are the nine this file generates, \<^verbatim>\<open>vma\<close> being in the table of a debug
  build only. The wrappers \<^verbatim>\<open>drm_vm_info\<close>, \<^verbatim>\<open>drm_queues_info\<close>, \<^verbatim>\<open>drm_bufs_info\<close>,
  \<^verbatim>\<open>drm_objects_info\<close>, \<^verbatim>\<open>drm_clients_info\<close> and \<^verbatim>\<open>drm_vma_info\<close> take
  \<^verbatim>\<open>dev->struct_mutex\<close>, call the function of the same name with two underscores and
  release the mutex: in a sequential model they are that function.
\<close>

definition drm_proc_list :: "kconfig \<Rightarrow> string list" where
  "drm_proc_list cfg =
     [''name'', ''mem'', ''vm'', ''clients'', ''queues'', ''bufs'', ''objects'', ''gem_names'',
      ''gem_objects'']
     @ (if DRM_DEBUG_CODE cfg then [''vma''] else [])"

datatype report =
  Name | Vm | Clients | Queues | Bufs | Objects | Gem_names | Gem_objects | Vma

fun read_report :: "kconfig \<Rightarrow> report \<Rightarrow> drm_device \<Rightarrow> int \<Rightarrow> int \<Rightarrow> proc_result" where
  "read_report cfg Name dev offset request = drm_name_info cfg dev offset request"
| "read_report cfg Vm dev offset request = drm__vm_info cfg dev offset request"
| "read_report cfg Clients dev offset request = drm__clients_info cfg dev offset request"
| "read_report cfg Queues dev offset request = snd (drm__queues_info cfg dev offset request)"
| "read_report cfg Bufs dev offset request = drm__bufs_info cfg dev offset request"
| "read_report cfg Objects dev offset request = drm__objects_info cfg dev offset request"
| "read_report cfg Gem_names dev offset request = drm_gem_name_info cfg dev offset request"
| "read_report cfg Gem_objects dev offset request = drm_gem_object_info cfg dev offset request"
| "read_report cfg Vma dev offset request = drm__vma_info cfg dev offset request"

section \<open>Registration\<close>

text \<open>
  The proc file system, as far as \<^verbatim>\<open>drm_proc_init\<close> and \<^verbatim>\<open>drm_proc_cleanup\<close> touch it:
  the directories under \<^verbatim>\<open>root\<close> and the entries under the directory of this minor.
  \<^verbatim>\<open>proc_mkdir\<close> and \<^verbatim>\<open>create_proc_entry\<close> are kernel functions that may return
  \<^verbatim>\<open>NULL\<close>; whether they do is given by \<open>mkdir_ok\<close> and \<open>create_ok\<close>.
  \<^verbatim>\<open>remove_proc_entry\<close> removes the entry of that name from the directory and does
  nothing when there is none; removing a directory does not remove what is
  registered in it.
\<close>

record proc_fs =
  root_dirs :: "string list"
  dev_entries :: "string list"

record proc_env =
  mkdir_ok :: bool
  create_ok :: "string \<Rightarrow> bool"

record drm_minor =
  dev_root :: "string option"
  minor_idx :: int

definition remove_proc_entry :: "string \<Rightarrow> string list \<Rightarrow> string list" where
  "remove_proc_entry nm dir = remove1 nm dir"

text \<open>
  The loop of \<^verbatim>\<open>drm_proc_init\<close> from entry \<open>i\<close> on; \<open>es\<close> are the entries \<open>i\<close>,
  \<open>i + 1\<close>, ... of the table \<open>tbl\<close>. On a failure the inner loop runs \<open>j\<close> from 0 to
  \<open>i - 1\<close> and calls \<^verbatim>\<open>remove_proc_entry(drm_proc_list[i].name, minor->dev_root)\<close> each
  time, then the directory \<open>name\<close> is removed from \<^verbatim>\<open>root\<close>.
\<close>

fun proc_init_loop ::
  "proc_env \<Rightarrow> string list \<Rightarrow> string \<Rightarrow> nat \<Rightarrow> string list \<Rightarrow> drm_minor \<Rightarrow> proc_fs
     \<Rightarrow> int \<times> drm_minor \<times> proc_fs"
where
  "proc_init_loop env tbl name i [] minor fs = (0, minor, fs)"
| "proc_init_loop env tbl name i (e # es) minor fs =
     (if \<not> create_ok env e
      then
        (let fs1 = fold (\<lambda>j fs'. fs'\<lparr>dev_entries := remove_proc_entry (tbl ! i) (dev_entries fs')\<rparr>)
                        [0 ..< i] fs;
             fs2 = fs1\<lparr>root_dirs := remove_proc_entry name (root_dirs fs1)\<rparr>
         in (- 1, minor\<lparr>dev_root := None\<rparr>, fs2))
      else proc_init_loop env tbl name (Suc i) es minor (fs\<lparr>dev_entries := dev_entries fs @ [e]\<rparr>))"

definition drm_proc_init ::
  "kconfig \<Rightarrow> proc_env \<Rightarrow> drm_minor \<Rightarrow> int \<Rightarrow> proc_fs \<Rightarrow> int \<times> drm_minor \<times> proc_fs"
where
  "drm_proc_init cfg env minor minor_id fs =
     (let name = dec_int minor_id in
      if \<not> mkdir_ok env then (- 1, minor\<lparr>dev_root := None\<rparr>, fs)
      else proc_init_loop env (drm_proc_list cfg) name 0 (drm_proc_list cfg)
             (minor\<lparr>dev_root := Some name\<rparr>) (fs\<lparr>root_dirs := root_dirs fs @ [name]\<rparr>))"

definition drm_proc_cleanup ::
  "kconfig \<Rightarrow> drm_minor \<Rightarrow> bool \<Rightarrow> proc_fs \<Rightarrow> int \<times> proc_fs"
where
  "drm_proc_cleanup cfg minor root_present fs =
     (if \<not> root_present \<or> dev_root minor = None then (0, fs)
      else
        (let fs1 = fold (\<lambda>e fs'. fs'\<lparr>dev_entries := remove_proc_entry e (dev_entries fs')\<rparr>)
                        (drm_proc_list cfg) fs
         in (0, fs1\<lparr>root_dirs := remove_proc_entry (dec_int (minor_idx minor)) (root_dirs fs1)\<rparr>)))"

section \<open>A reader\<close>

text \<open>
  The reader the paginated protocol is written for: it asks for \<open>k\<close> bytes at the
  offsets \<open>off\<close>, \<open>off + k\<close>, ... until a call sets \<^verbatim>\<open>*eof\<close>, takes from each call
  what \<open>returned_bytes\<close> gives, at most \<open>k\<close> bytes, and concatenates the slices. The
  device is the same at every call.
\<close>

function read_chunks :: "kconfig \<Rightarrow> report \<Rightarrow> drm_device \<Rightarrow> int \<Rightarrow> int \<Rightarrow> string" where
  "read_chunks cfg rep dev k off =
     (let r = read_report cfg rep dev off k in
      if eof_flag r \<or> k < 1 then returned_bytes off k r
      else returned_bytes off k r @ read_chunks cfg rep dev k (off + k))"
  by pat_completeness auto


lemma read_report_past_limit:
  "DRM_PROC_LIMIT cfg < off \<Longrightarrow> read_report cfg rep dev off k = proc_past_limit"
  by (cases rep)
     (simp_all add: drm_name_info_def drm__vm_info_def drm__clients_info_def drm__queues_info_def
        drm__bufs_info_def drm__objects_info_def drm_gem_name_info_def drm_gem_object_info_def
        drm__vma_info_def proc_read_def split: option.splits)

termination read_chunks
proof (relation "measure (\<lambda>(cfg, rep, dev, k, off). nat (DRM_PROC_LIMIT cfg + 1 - off))")
  show "wf (measure (\<lambda>(cfg, rep, dev, k, off). nat (DRM_PROC_LIMIT cfg + 1 - off)))"
    by simp
next
  fix cfg rep dev k off r
  assume r: "r = read_report cfg rep dev off k" and go: "\<not> (eof_flag r \<or> k < 1)"
  have "off \<le> DRM_PROC_LIMIT cfg"
  proof (rule ccontr)
    assume "\<not> off \<le> DRM_PROC_LIMIT cfg"
    then have "r = proc_past_limit"
      using r by (simp add: read_report_past_limit)
    then show False
      using go by (simp add: proc_past_limit_def)
  qed
  then show "((cfg, rep, dev, k, off + k), (cfg, rep, dev, k, off))
      \<in> measure (\<lambda>(cfg, rep, dev, k, off). nat (DRM_PROC_LIMIT cfg + 1 - off))"
    using go by simp
qed

declare read_chunks.simps [simp del]

section \<open>What a call leaves in the buffer\<close>

text \<open>
  The buffer after a run of prints that starts with \<open>b\<close> in it, whether the run ends
  by an early return or not.
\<close>

definition prints_buf :: "kconfig \<Rightarrow> string list \<Rightarrow> string \<Rightarrow> string" where
  "prints_buf cfg ps b = (case proc_prints cfg 0 ps b of Inl r \<Rightarrow> out_buf r | Inr b' \<Rightarrow> b')"

text \<open>
  The texts the loop of \<^verbatim>\<open>drm__queues_info\<close> formats: each queue is read between its
  \<^verbatim>\<open>atomic_inc\<close> and its \<^verbatim>\<open>atomic_dec\<close>.
\<close>

fun queue_lines :: "c_int \<Rightarrow> drm_queue list \<Rightarrow> string list" where
  "queue_lines i [] = []"
| "queue_lines i (q # qs) =
     queue_line i (q\<lparr>use_count := atomic_inc (use_count q)\<rparr>) # queue_lines (i + 1) qs"

text \<open>
  The texts a report is made of, in order, and the buffer its generator leaves when
  it gets past the limit test (\<^verbatim>\<open>drm_gem_name_info\<close> writes its header before the
  walk and does not test the length after it).
\<close>

fun report_items :: "kconfig \<Rightarrow> report \<Rightarrow> drm_device \<Rightarrow> string list" where
  "report_items cfg Name dev = name_prints dev"
| "report_items cfg Vm dev = vm_prints dev"
| "report_items cfg Clients dev = clients_prints dev"
| "report_items cfg Queues dev = queues_header # queue_lines 0 (queuelist dev)"
| "report_items cfg Bufs dev = (case dma dev of None \<Rightarrow> [] | Some d \<Rightarrow> bufs_prints cfg d)"
| "report_items cfg Objects dev = objects_prints cfg dev"
| "report_items cfg Gem_names dev = gem_header # map (gem_line cfg) (object_name_idr dev)"
| "report_items cfg Gem_objects dev = gem_object_prints dev"
| "report_items cfg Vma dev = vma_prints cfg dev"

definition report_body :: "kconfig \<Rightarrow> report \<Rightarrow> drm_device \<Rightarrow> string" where
  "report_body cfg rep dev =
     (if rep = Gem_names then prints_buf cfg (map (gem_line cfg) (object_name_idr dev)) gem_header
      else prints_buf cfg (report_items cfg rep dev) [])"


section \<open>The rows of the buffer table, as the specification has them\<close>



section \<open>Concrete devices\<close>

text \<open>A device with a name and nothing else, and a named object.\<close>

definition idle_device :: drm_device where
  "idle_device =
     \<lparr>driver_name = ''i915'', pci_name = ''0000:00:02.0'', unique = None,
      maplist = [], queuelist = [],
      dma = Some \<lparr>bufs = (\<lambda>i. \<lparr>buf_size = 0, buf_count = 0, freelist_count = 0,
                                  seg_count = 0, page_order = 0\<rparr>),
                  buflist = []\<rparr>,
      fm = \<lparr>fm_initialized = False, fm_count = 0\<rparr>,
      bm = \<lparr>bm_initialized = False, bm_count = 0, cur_pages = 0\<rparr>,
      mem = \<lparr>used_mem = 0, used_emer = 0, low_mem = 0, high_mem = 0, emer_mem = 0\<rparr>,
      filelist = [], object_name_idr = [],
      object_count = 0, object_memory = 0, pin_count = 0, pin_memory = 0, gtt_memory = 0,
      gtt_total = 0, vma_count = 0, vmalist = [], high_memory = 0, high_memory_phys = 0\<rparr>"

definition obj1 :: drm_gem_object where
  "obj1 = \<lparr>obj_name = 1, obj_size = 4096, handlecount = 1, refcount = 2\<rparr>"

text \<open>The same device with 121 named objects, all alike.\<close>

definition crowded_device :: drm_device where
  "crowded_device = idle_device\<lparr>object_name_idr := replicate 121 obj1\<rparr>"

text \<open>The idle device with one queue in use, and a kernel with a limit of 100 bytes.\<close>

definition queue_device :: drm_device where
  "queue_device =
     idle_device\<lparr>queuelist :=
       [\<lparr>q_flags = 1, use_count = 2, finalization = 0, block_count = 3, block_read = 1,
         block_write = 0, read_queue_active = True, write_queue_active = False,
         flush_queue_active = True, waitlist_bufcount = 7\<rparr>]\<rparr>"

definition tiny_limit :: kconfig where
  "tiny_limit = x86_64\<lparr>DRM_PROC_LIMIT := 100\<rparr>"

text \<open>The idle device with 100 clients, all alike.\<close>

definition client1 :: drm_file where
  "client1 = \<lparr>authenticated = True, minor_index = 0, pid = 1234, uid = 1000, magic = 5,
     ioctl_count = 42\<rparr>"

definition busy_device :: drm_device where
  "busy_device = idle_device\<lparr>filelist := replicate 100 client1\<rparr>"





text \<open>
  A registration environment in which every \<^verbatim>\<open>create_proc_entry\<close> succeeds but the one
  for \<^verbatim>\<open>mem\<close>, the second entry of the table.
\<close>

definition mem_fails :: proc_env where
  "mem_fails = \<lparr>mkdir_ok = True, create_ok = (\<lambda>nm. nm \<noteq> ''mem'')\<rparr>"



definition memory_device :: drm_device where
  "memory_device =
     idle_device\<lparr>mem := \<lparr>used_mem = 69632, used_emer = 5, low_mem = 4096000,
                          high_mem = 8192000, emer_mem = 12288000\<rparr>\<rparr>"

section \<open>The print runs\<close>

lemma proc_prints_Inr:
  "proc_prints cfg off ps b = Inr b' \<Longrightarrow>
     b' = b @ concat ps \<and> (\<forall>m. 0 < m \<and> m \<le> length ps \<longrightarrow> int (length (b @ concat (take m ps))) \<le> DRM_PROC_LIMIT cfg)"
proof (induction ps arbitrary: b)
  case Nil
  then show ?case by simp
next
  case (Cons s ss)
  from Cons.prems have fit: "int (length (b @ s)) \<le> DRM_PROC_LIMIT cfg"
    and rest: "proc_prints cfg off ss (b @ s) = Inr b'"
    by (auto simp: DRM_PROC_PRINT_def Let_def split: if_splits)
  from Cons.IH [OF rest] have b': "b' = (b @ s) @ concat ss"
    and ih: "\<And>m. 0 < m \<Longrightarrow> m \<le> length ss \<Longrightarrow> int (length ((b @ s) @ concat (take m ss))) \<le> DRM_PROC_LIMIT cfg"
    by auto
  have "int (length (b @ concat (take m (s # ss)))) \<le> DRM_PROC_LIMIT cfg"
    if m: "0 < m" "m \<le> length (s # ss)" for m
  proof (cases m)
    case 0
    with m show ?thesis by simp
  next
    case (Suc m')
    show ?thesis
    proof (cases m')
      case 0
      with Suc fit show ?thesis by simp
    next
      case (Suc m'')
      with \<open>m = Suc m'\<close> m ih [of m'] show ?thesis by simp
    qed
  qed
  with b' show ?case by simp
qed

lemma proc_prints_Inl:
  "proc_prints cfg off ps b = Inl r \<Longrightarrow>
     \<exists>n < length ps.
        r = \<lparr>ret_val = int (length (b @ concat (take (Suc n) ps))) - off, eof_flag = True,
              start_off = Some off, out_buf = b @ concat (take (Suc n) ps)\<rparr>
        \<and> int (length (b @ concat (take (Suc n) ps))) > DRM_PROC_LIMIT cfg
        \<and> (\<forall>m. 0 < m \<and> m \<le> n \<longrightarrow> int (length (b @ concat (take m ps))) \<le> DRM_PROC_LIMIT cfg)"
proof (induction ps arbitrary: b)
  case Nil
  then show ?case by simp
next
  case (Cons s ss)
  show ?case
  proof (cases "int (length (b @ s)) > DRM_PROC_LIMIT cfg")
    case True
    with Cons.prems have "r = \<lparr>ret_val = int (length (b @ s)) - off, eof_flag = True,
              start_off = Some off, out_buf = b @ s\<rparr>"
      by (auto simp: DRM_PROC_PRINT_def Let_def)
    with True show ?thesis
      by (intro exI [of _ 0]) simp
  next
    case False
    with Cons.prems have rest: "proc_prints cfg off ss (b @ s) = Inl r"
      by (auto simp: DRM_PROC_PRINT_def Let_def)
    from Cons.IH [OF rest] obtain n where n: "n < length ss"
      and r: "r = \<lparr>ret_val = int (length ((b @ s) @ concat (take (Suc n) ss))) - off, eof_flag = True,
              start_off = Some off, out_buf = (b @ s) @ concat (take (Suc n) ss)\<rparr>"
      and over: "int (length ((b @ s) @ concat (take (Suc n) ss))) > DRM_PROC_LIMIT cfg"
      and ih: "\<And>m. 0 < m \<Longrightarrow> m \<le> n \<Longrightarrow> int (length ((b @ s) @ concat (take m ss))) \<le> DRM_PROC_LIMIT cfg"
      by blast
    have "int (length (b @ concat (take m (s # ss)))) \<le> DRM_PROC_LIMIT cfg"
      if m: "0 < m" "m \<le> Suc n" for m
    proof (cases m)
      case 0
      with m show ?thesis by simp
    next
      case (Suc m')
      show ?thesis
      proof (cases m')
        case 0
        with Suc False show ?thesis by simp
      next
        case (Suc m'')
        with \<open>m = Suc m'\<close> m ih [of m'] show ?thesis by simp
      qed
    qed
    with n r over show ?thesis
      by (intro exI [of _ "Suc n"]) simp
  qed
qed

lemma proc_prints_offset:
  "proc_prints cfg off ps b = Inr b' \<Longrightarrow> proc_prints cfg off' ps b = Inr b'"
  "proc_prints cfg off ps b = Inl r \<Longrightarrow>
     proc_prints cfg off' ps b = Inl (r\<lparr>ret_val := int (length (out_buf r)) - off', start_off := Some off'\<rparr>)"
  by (induction ps arbitrary: b) (auto simp: DRM_PROC_PRINT_def Let_def split: if_splits)

lemma proc_prints_append:
  "proc_prints cfg off (ps @ qs) b =
     (case proc_prints cfg off ps b of Inl r \<Rightarrow> Inl r | Inr b' \<Rightarrow> proc_prints cfg off qs b')"
  by (induction ps arbitrary: b) (auto split: sum.splits)

lemma prints_buf_prefix:
  "\<exists>n \<le> length ps. prints_buf cfg ps b = b @ concat (take n ps)
      \<and> (\<forall>m. 0 < m \<and> m < n \<longrightarrow> int (length (b @ concat (take m ps))) \<le> DRM_PROC_LIMIT cfg)"
proof (cases "proc_prints cfg 0 ps b")
  case (Inl r)
  from proc_prints_Inl [OF Inl] obtain n where "n < length ps"
    and "out_buf r = b @ concat (take (Suc n) ps)"
    and "\<forall>m. 0 < m \<and> m \<le> n \<longrightarrow> int (length (b @ concat (take m ps))) \<le> DRM_PROC_LIMIT cfg"
    by force
  with Inl show ?thesis
    by (intro exI [of _ "Suc n"]) (simp add: prints_buf_def)
next
  case (Inr b')
  from proc_prints_Inr [OF Inr] Inr show ?thesis
    by (intro exI [of _ "length ps"]) (simp add: prints_buf_def)
qed

lemma prints_buf_fits:
  "int (length (b @ concat ps)) \<le> DRM_PROC_LIMIT cfg \<Longrightarrow> proc_prints cfg off ps b = Inr (b @ concat ps)"
  by (induction ps arbitrary: b) (auto simp: DRM_PROC_PRINT_def Let_def)

lemma prints_buf_stops:
  assumes "int (length (b @ concat ps)) \<le> DRM_PROC_LIMIT cfg"
    and "int (length (b @ concat ps @ s)) > DRM_PROC_LIMIT cfg"
  shows "prints_buf cfg (ps @ s # rest) b = b @ concat ps @ s"
  unfolding prints_buf_def proc_prints_append prints_buf_fits [OF assms(1)]
  using assms(2) by (simp add: DRM_PROC_PRINT_def)

lemma proc_read_shape:
  assumes "off \<le> DRM_PROC_LIMIT cfg" and "ps \<noteq> []"
  shows "proc_read cfg off req ps =
     (if int (length (prints_buf cfg ps [])) > DRM_PROC_LIMIT cfg
      then \<lparr>ret_val = int (length (prints_buf cfg ps [])) - off, eof_flag = True,
             start_off = Some off, out_buf = prints_buf cfg ps []\<rparr>
      else proc_tail off req (prints_buf cfg ps []))"
proof (cases "proc_prints cfg 0 ps []")
  case (Inl r)
  from proc_prints_Inl [OF Inl] have "int (length (out_buf r)) > DRM_PROC_LIMIT cfg"
    by force
  moreover from proc_prints_Inl [OF Inl] have "eof_flag r"
    by force
  ultimately show ?thesis
    using assms Inl proc_prints_offset(2) [OF Inl, of off]
    by (simp add: proc_read_def prints_buf_def)
next
  case (Inr b')
  from proc_prints_Inr [OF Inr] assms(2) have "int (length b') \<le> DRM_PROC_LIMIT cfg"
    by (auto dest: spec [of _ "length ps"])
  then show ?thesis
    using assms Inr proc_prints_offset(1) [OF Inr, of off]
    by (simp add: proc_read_def prints_buf_def)
qed

section \<open>The walk over the named objects\<close>

lemma idr_for_each_eof:
  "nid_eof nid \<Longrightarrow>
     idr_for_each cfg objs (nid, klog) = (0, nid, klog @ map (gem_info_msg cfg) objs)"
  by (induction objs arbitrary: klog) (simp_all add: drm_gem_one_name_info_def Let_def)

lemma idr_for_each_run:
  "\<not> nid_eof nid \<Longrightarrow> nid_len nid = int (length (nid_buf nid)) \<Longrightarrow>
     idr_for_each cfg objs (nid, klog) =
       (0,
        nid\<lparr>nid_len := int (length (prints_buf cfg (map (gem_line cfg) objs) (nid_buf nid))),
            nid_buf := prints_buf cfg (map (gem_line cfg) objs) (nid_buf nid),
            nid_eof := (case proc_prints cfg 0 (map (gem_line cfg) objs) (nid_buf nid) of
                          Inl r \<Rightarrow> True | Inr b \<Rightarrow> False)\<rparr>,
        klog @ map (gem_info_msg cfg) objs)"
proof (induction objs arbitrary: nid klog)
  case Nil
  then show ?case by (simp add: prints_buf_def)
next
  case (Cons obj objs)
  show ?case
  proof (cases "int (length (nid_buf nid @ gem_line cfg obj)) > DRM_PROC_LIMIT cfg")
    case True
    with Cons.prems show ?thesis
      by (simp add: drm_gem_one_name_info_def Let_def idr_for_each_eof prints_buf_def
          DRM_PROC_PRINT_def)
  next
    case False
    let ?nid1 = "nid\<lparr>nid_len := nid_len nid + int (length (gem_line cfg obj)),
                     nid_buf := nid_buf nid @ gem_line cfg obj\<rparr>"
    from False Cons.prems
    have step: "drm_gem_one_name_info cfg obj (nid, klog) = (0, ?nid1, klog @ [gem_info_msg cfg obj])"
      by (simp add: drm_gem_one_name_info_def Let_def)
    have "\<not> nid_eof ?nid1" "nid_len ?nid1 = int (length (nid_buf ?nid1))"
      using Cons.prems by simp_all
    from Cons.IH [OF this] step False show ?thesis
      by (simp add: prints_buf_def DRM_PROC_PRINT_def)
  qed
qed

lemma idr_for_each_ret: "fst (idr_for_each cfg objs st) = 0"
  by (induction objs arbitrary: st)
     (auto simp: drm_gem_one_name_info_def Let_def split: prod.splits)

lemma idr_for_each_append:
  "idr_for_each cfg (xs @ ys) st = idr_for_each cfg ys (snd (idr_for_each cfg xs st))"
proof (induction xs arbitrary: st)
  case Nil
  show ?case by simp
next
  case (Cons x xs)
  obtain r st' where step: "drm_gem_one_name_info cfg x st = (r, st')"
    by (cases "drm_gem_one_name_info cfg x st")
  then have "r = 0"
    by (auto simp: drm_gem_one_name_info_def Let_def split: if_splits)
  with step Cons.IH show ?case by simp
qed

lemma gem_walk_eq:
  "gem_walk cfg xs klog =
     (0,
      \<lparr>nid_len = int (length (prints_buf cfg (map (gem_line cfg) xs) gem_header)),
       nid_buf = prints_buf cfg (map (gem_line cfg) xs) gem_header,
       nid_eof = (case proc_prints cfg 0 (map (gem_line cfg) xs) gem_header of
                    Inl r \<Rightarrow> True | Inr b \<Rightarrow> False)\<rparr>,
      klog @ map (gem_info_msg cfg) xs)"
  by (simp add: gem_walk_def idr_for_each_run)

lemma gem_walk_over_limit:
  assumes hdr: "int (length gem_header) \<le> DRM_PROC_LIMIT cfg"
    and over: "int (length (prints_buf cfg (map (gem_line cfg) xs) gem_header)) > DRM_PROC_LIMIT cfg"
  shows "\<exists>r. proc_prints cfg 0 (map (gem_line cfg) xs) gem_header = Inl r"
proof (cases "proc_prints cfg 0 (map (gem_line cfg) xs) gem_header")
  case (Inl r)
  then show ?thesis by simp
next
  case (Inr b')
  from proc_prints_Inr [OF Inr]
  have b': "b' = gem_header @ concat (map (gem_line cfg) xs)"
    and fit: "\<And>m. 0 < m \<Longrightarrow> m \<le> length xs \<Longrightarrow>
        int (length (gem_header @ concat (take m (map (gem_line cfg) xs)))) \<le> DRM_PROC_LIMIT cfg"
    by auto
  have "int (length b') \<le> DRM_PROC_LIMIT cfg"
  proof (cases xs)
    case Nil
    with b' hdr show ?thesis by simp
  next
    case (Cons x xs')
    with fit [of "length xs"] b' show ?thesis by simp
  qed
  with over Inr show ?thesis
    by (simp add: prints_buf_def)
qed

section \<open>The loop over the queues\<close>

lemma atomic_dec_inc: "atomic_dec (atomic_inc v) = v"
  by (simp add: atomic_dec_def atomic_inc_def)

lemma queues_loop_eq:
  "queues_loop cfg off i qs b = (qs, proc_prints cfg off (queue_lines i qs) b)"
proof (induction qs arbitrary: i b)
  case Nil
  show ?case by simp
next
  case (Cons q qs)
  show ?case
    by (cases "DRM_PROC_PRINT cfg off b (queue_line i (q\<lparr>use_count := atomic_inc (use_count q)\<rparr>))")
       (simp_all add: Let_def atomic_dec_inc Cons.IH)
qed

lemma drm__queues_info_eq:
  "drm__queues_info cfg dev off req =
     (dev, proc_read cfg off req (queues_header # queue_lines 0 (queuelist dev)))"
  by (cases "DRM_PROC_PRINT cfg off [] queues_header")
     (auto simp: drm__queues_info_def proc_read_def queues_loop_eq split: sum.splits)


section \<open>The shape of a read\<close>

lemma drm_gem_name_info_eq:
  "drm_gem_name_info cfg dev off req =
     (if off > DRM_PROC_LIMIT cfg then proc_past_limit
      else proc_tail off req (prints_buf cfg (map (gem_line cfg) (object_name_idr dev)) gem_header))"
  by (simp add: drm_gem_name_info_def gem_walk_def idr_for_each_run proc_tail_def Let_def)

declare read_report.simps [simp del]

lemma read_report_shape:
  "read_report cfg rep dev off req =
     (if off > DRM_PROC_LIMIT cfg \<or> (rep = Bufs \<and> dma dev = None) then proc_past_limit
      else if rep \<noteq> Gem_names \<and> int (length (report_body cfg rep dev)) > DRM_PROC_LIMIT cfg
      then \<lparr>ret_val = int (length (report_body cfg rep dev)) - off, eof_flag = True,
             start_off = Some off, out_buf = report_body cfg rep dev\<rparr>
      else proc_tail off req (report_body cfg rep dev))"
proof (cases "off > DRM_PROC_LIMIT cfg")
  case True
  then show ?thesis by (simp add: read_report_past_limit)
next
  case False
  then have le: "off \<le> DRM_PROC_LIMIT cfg" by simp
  show ?thesis
  proof (cases rep)
    case Name
    with le show ?thesis
      by (simp add: read_report.simps drm_name_info_def report_body_def proc_read_shape name_prints_def)
  next
    case Vm
    with le show ?thesis
      by (simp add: read_report.simps drm__vm_info_def report_body_def proc_read_shape vm_prints_def)
  next
    case Clients
    with le show ?thesis
      by (simp add: read_report.simps drm__clients_info_def report_body_def proc_read_shape clients_prints_def)
  next
    case Queues
    with le show ?thesis
      by (simp add: read_report.simps drm__queues_info_eq report_body_def proc_read_shape)
  next
    case Bufs
    with le show ?thesis
      by (cases "dma dev")
         (simp_all add: read_report.simps drm__bufs_info_def report_body_def proc_read_shape bufs_prints_def)
  next
    case Objects
    with le show ?thesis
      by (simp add: read_report.simps drm__objects_info_def report_body_def proc_read_shape objects_prints_def
          objects_head_def)
  next
    case Gem_names
    with le show ?thesis
      by (simp add: read_report.simps drm_gem_name_info_eq report_body_def)
  next
    case Gem_objects
    with le show ?thesis
      by (simp add: read_report.simps drm_gem_object_info_def report_body_def proc_read_shape
          gem_object_prints_def)
  next
    case Vma
    with le show ?thesis
      by (simp add: read_report.simps drm__vma_info_def report_body_def proc_read_shape
          vma_prints_def)
  qed
qed

lemma out_buf_read_report:
  "out_buf (read_report cfg rep dev off req) =
     (if off > DRM_PROC_LIMIT cfg \<or> (rep = Bufs \<and> dma dev = None) then []
      else report_body cfg rep dev)"
  by (simp add: read_report_shape proc_past_limit_def proc_tail_def)

lemma buffer_prefix_of_items:
  assumes hdr: "int (length gem_header) \<le> DRM_PROC_LIMIT cfg"
  shows "\<exists>n \<le> length (report_items cfg rep dev).
            out_buf (read_report cfg rep dev offset request) = concat (take n (report_items cfg rep dev))
            \<and> (\<forall>m < n. int (length (concat (take m (report_items cfg rep dev)))) \<le> DRM_PROC_LIMIT cfg)"
proof -
  let ?L = "DRM_PROC_LIMIT cfg"
  let ?items = "report_items cfg rep dev"
  from hdr have L0: "0 \<le> ?L" by simp
  show "\<exists>n \<le> length ?items.
            out_buf (read_report cfg rep dev offset request) = concat (take n ?items)
            \<and> (\<forall>m < n. int (length (concat (take m ?items))) \<le> ?L)"
  proof (cases "offset > ?L \<or> (rep = Bufs \<and> dma dev = None)")
    case True
    then have "out_buf (read_report cfg rep dev offset request) = []"
      by (simp add: out_buf_read_report)
    then show ?thesis
      by (intro exI [of _ 0]) simp
  next
    case False
    then have body: "out_buf (read_report cfg rep dev offset request) = report_body cfg rep dev"
      by (auto simp: out_buf_read_report)
    show ?thesis
    proof (cases "rep = Gem_names")
      case True
      let ?lines = "map (gem_line cfg) (object_name_idr dev)"
      from prints_buf_prefix [of ?lines cfg gem_header]
      obtain n where n: "n \<le> length ?lines"
        and buf: "prints_buf cfg ?lines gem_header = gem_header @ concat (take n ?lines)"
        and fit: "\<And>m. 0 < m \<Longrightarrow> m < n \<Longrightarrow> int (length (gem_header @ concat (take m ?lines))) \<le> ?L"
        by auto
      have "int (length (concat (take m (gem_header # ?lines)))) \<le> ?L" if "m < Suc n" for m
      proof (cases m)
        case 0
        with L0 show ?thesis by simp
      next
        case (Suc m')
        show ?thesis
        proof (cases m')
          case 0
          with Suc hdr show ?thesis by simp
        next
          case (Suc m'')
          with \<open>m = Suc m'\<close> that fit [of m'] show ?thesis by simp
        qed
      qed
      with True n buf body show ?thesis
        by (intro exI [of _ "Suc n"]) (simp add: report_body_def)
    next
      case False
      from prints_buf_prefix [of ?items cfg "[]"]
      obtain n where n: "n \<le> length ?items"
        and buf: "prints_buf cfg ?items [] = concat (take n ?items)"
        and fit: "\<And>m. 0 < m \<Longrightarrow> m < n \<Longrightarrow> int (length (concat (take m ?items))) \<le> ?L"
        by auto
      have "int (length (concat (take m ?items))) \<le> ?L" if "m < n" for m
        using that fit [of m] L0 by (cases m) simp_all
      with False n buf body show ?thesis
        by (intro exI [of _ n]) (simp add: report_body_def)
    qed
  qed
qed

lemma concat_take_Suc:
  "n < length ps \<Longrightarrow> concat (take (Suc n) ps) = concat (take n ps) @ ps ! n"
  by (simp add: take_Suc_conv_app_nth)

lemma writes_within_slack:
  assumes hdr: "int (length gem_header) \<le> DRM_PROC_LIMIT cfg"
    and slack: "0 < slack"
    and items: "\<forall>s \<in> set (report_items cfg rep dev). int (length s) < slack"
  shows "int (length (out_buf (read_report cfg rep dev offset request))) + 1
     \<le> DRM_PROC_LIMIT cfg + slack"
proof -
  let ?ps = "report_items cfg rep dev"
  from buffer_prefix_of_items [OF hdr, of rep dev offset request]
  obtain n where n: "n \<le> length ?ps"
    and buf: "out_buf (read_report cfg rep dev offset request) = concat (take n ?ps)"
    and fit: "\<And>m. m < n \<Longrightarrow> int (length (concat (take m ?ps))) \<le> DRM_PROC_LIMIT cfg"
    by blast
  show ?thesis
  proof (cases n)
    case 0
    with buf hdr slack show ?thesis by simp
  next
    case (Suc m)
    with n have m: "m < length ?ps" by simp
    with items have "int (length (?ps ! m)) < slack"
      by simp
    moreover from fit [of m] Suc have "int (length (concat (take m ?ps))) \<le> DRM_PROC_LIMIT cfg"
      by simp
    ultimately show ?thesis
      using buf Suc by (simp add: concat_take_Suc [OF m])
  qed
qed




lemma read_chunks_tail:
  assumes shape: "\<And>off. read_report cfg rep dev off k =
            (if off > DRM_PROC_LIMIT cfg then proc_past_limit else proc_tail off k body)"
    and k: "1 \<le> k" and len: "int (length body) \<le> DRM_PROC_LIMIT cfg + 1"
  shows "0 \<le> off \<Longrightarrow> off \<le> int (length body) \<Longrightarrow>
           read_chunks cfg rep dev k off = drop (nat off) body"
proof (induction "nat (int (length body) - off)" arbitrary: off rule: less_induct)
  case less
  show ?case
  proof (cases "off > DRM_PROC_LIMIT cfg")
    case True
    with less.prems len have "off = int (length body)" by simp
    with True show ?thesis
      by (subst read_chunks.simps) (simp add: shape proc_past_limit_def returned_bytes_def)
  next
    case False
    show ?thesis
    proof (cases "int (length body) > k + off")
      case True
      have ih: "read_chunks cfg rep dev k (off + k) = drop (nat (off + k)) body"
        using less.prems k True by (intro less.hyps) simp_all
      have sum: "nat (off + k) = nat k + nat off"
        using less.prems k by simp
      have step: "read_chunks cfg rep dev k off =
          take (nat k) (drop (nat off) body) @ read_chunks cfg rep dev k (off + k)"
        using False True k
        by (subst read_chunks.simps)
           (simp add: shape proc_tail_def returned_bytes_def)
      have "take (nat k) (drop (nat off) body) @ drop (nat k + nat off) body = drop (nat off) body"
        by (metis append_take_drop_id drop_drop)
      with step ih sum show ?thesis
        by (simp)
    next
      case False
      with \<open>\<not> off > DRM_PROC_LIMIT cfg\<close> less.prems show ?thesis
        by (subst read_chunks.simps)
           (simp add: shape proc_tail_def returned_bytes_def)
    qed
  qed
qed

section \<open>The lengths of formatted numbers\<close>

lemma length_pad_left: "length (pad_left c w s) = max w (length s)"
  by (simp add: pad_left_def)

lemma length_fmt_d: "length (fmt_d w i) = max w (length (dec_int i))"
  by (simp add: fmt_d_def length_pad_left)

lemma length_fmt_0x: "length (fmt_0x w n) = max w (length (hex_nat n))"
  by (simp add: fmt_0x_def length_pad_left)


lemma length_dec_nat: "0 < k \<Longrightarrow> n < 10 ^ k \<Longrightarrow> length (dec_nat n) \<le> k"
proof (induction k arbitrary: n)
  case 0
  then show ?case by simp
next
  case (Suc k)
  show ?case
  proof (cases "n < 10")
    case True
    then show ?thesis
      by (subst dec_nat.simps) simp
  next
    case False
    with Suc.prems have k: "0 < k"
      by (cases k) simp_all
    from Suc.prems have "n div 10 < 10 ^ k"
      by (simp add: less_mult_imp_div_less mult.commute)
    from Suc.IH [OF k this] False show ?thesis
      by (subst dec_nat.simps) simp
  qed
qed

lemma length_dec_int: "0 < k \<Longrightarrow> - (10 ^ k) < i \<Longrightarrow> i < 10 ^ k \<Longrightarrow> length (dec_int i) \<le> Suc k"
proof -
  assume k: "0 < k" and lo: "- (10 ^ k) < i" and hi: "i < 10 ^ k"
  have "nat \<bar>i\<bar> < 10 ^ k"
    using lo hi by (simp add: nat_less_iff abs_if)
  from length_dec_nat [OF k this] show ?thesis
    by (auto simp: dec_int_def abs_if split: if_splits)
qed

lemma length_dec_sint: "length (dec_int (sint (w :: 32 word))) \<le> 11"
proof -
  have "- (2 ^ 31) \<le> sint w" and "sint w < 2 ^ 31"
    using sint_ge [of w] sint_lt [of w] by simp_all
  then have "- (10 ^ 10) < sint w" and "sint w < 10 ^ 10"
    by simp_all
  from length_dec_int [OF _ this] show ?thesis
    by simp
qed

lemma as_long_bounds:
  assumes "BITS_PER_LONG cfg \<le> 64"
  shows "- (10 ^ 19) < as_long cfg n" and "as_long cfg n < 10 ^ 19"
proof -
  let ?B = "BITS_PER_LONG cfg"
  have p: "(2::int) ^ ?B \<le> 2 ^ 64"
    using assms by (intro power_increasing) simp_all
  have "n mod 2 ^ ?B < 2 ^ ?B"
    by simp
  then have m: "int (n mod 2 ^ ?B) < 2 ^ ?B"
    by (metis of_nat_less_iff of_nat_numeral of_nat_power)
  have h63: "(2::int) ^ (?B - 1) \<le> 2 ^ 63"
    using assms by (intro power_increasing) simp_all
  show "- (10 ^ 19) < as_long cfg n"
  proof (cases "n mod 2 ^ ?B < 2 ^ (?B - 1)")
    case True
    then show ?thesis
      by (simp add: as_long_def)
  next
    case False
    then have "2 ^ (?B - 1) \<le> n mod 2 ^ ?B"
      by simp
    then have ge: "(2::int) ^ (?B - 1) \<le> int (n mod 2 ^ ?B)"
      by (metis of_nat_le_iff of_nat_numeral of_nat_power)
    have "0 < ?B"
    proof (rule ccontr)
      assume "\<not> 0 < ?B"
      with False show False by simp
    qed
    then have pow: "(2::int) ^ ?B = 2 * 2 ^ (?B - 1)"
      by (cases ?B) simp_all
    from False have val: "as_long cfg n = int (n mod 2 ^ ?B) - 2 ^ ?B"
      by (simp add: as_long_def)
    have c: "(2::int) ^ 63 < 10 ^ 19"
      by simp
    show ?thesis
      unfolding val using ge h63 pow c by linarith
  qed
  show "as_long cfg n < 10 ^ 19"
  proof (cases "n mod 2 ^ ?B < 2 ^ (?B - 1)")
    case True
    then have lt: "int (n mod 2 ^ ?B) < 2 ^ (?B - 1)"
      by (metis of_nat_less_iff of_nat_numeral of_nat_power)
    from True have val: "as_long cfg n = int (n mod 2 ^ ?B)"
      by (simp add: as_long_def)
    have c: "(2::int) ^ 63 < 10 ^ 19"
      by simp
    show ?thesis
      unfolding val using lt h63 c by linarith
  next
    case False
    then have val: "as_long cfg n = int (n mod 2 ^ ?B) - 2 ^ ?B"
      by (simp add: as_long_def)
    have c: "(0::int) < 10 ^ 19"
      by simp
    show ?thesis
      unfolding val using m c by linarith
  qed
qed

lemma length_gem_line:
  assumes "BITS_PER_LONG cfg \<le> 64"
  shows "length (gem_line cfg obj) \<le> 54"
proof -
  have "length (dec_int (as_long cfg (obj_size obj))) \<le> 20"
    using length_dec_int [OF _ as_long_bounds [OF assms, of "obj_size obj"]] by simp
  moreover note length_dec_sint [of "obj_name obj"] length_dec_sint [of "handlecount obj"]
    length_dec_sint [of "refcount obj"]
  ultimately show ?thesis
    by (simp add: gem_line_def length_fmt_d)
qed



section \<open>The arithmetic of the buffer table and of the memory lines\<close>








lemma sixteen_pages:
  "PAGE_SHIFT cfg + 4 < BITS_PER_LONG cfg \<Longrightarrow>
     (16 * PAGE_SIZE cfg) mod 2 ^ BITS_PER_LONG cfg = 16 * PAGE_SIZE cfg"
proof -
  assume a: "PAGE_SHIFT cfg + 4 < BITS_PER_LONG cfg"
  have "16 * PAGE_SIZE cfg = 2 ^ (PAGE_SHIFT cfg + 4)"
    by (simp add: PAGE_SIZE_def power_add)
  moreover from a have "(2::nat) ^ (PAGE_SHIFT cfg + 4) < 2 ^ BITS_PER_LONG cfg"
    by (intro power_strict_increasing) simp_all
  ultimately show ?thesis
    by simp
qed

lemma pages_of:
  "to_ulong cfg (uint (drop_bit (PAGE_SHIFT cfg) v)) = to_ulong cfg (int (unat v div PAGE_SIZE cfg))"
proof -
  have "unat (drop_bit (PAGE_SHIFT cfg) v) = drop_bit (PAGE_SHIFT cfg) (unat v)"
    by (rule unat_drop_bit_eq)
  also have "\<dots> = unat v div 2 ^ PAGE_SHIFT cfg"
    by (rule drop_bit_eq_div)
  finally have "unat (drop_bit (PAGE_SHIFT cfg) v) = unat v div 2 ^ PAGE_SHIFT cfg" .
  then have "uint (drop_bit (PAGE_SHIFT cfg) v) = int (unat v div PAGE_SIZE cfg)"
    by (simp only: uint_nat PAGE_SIZE_def)
  then show ?thesis
    by (rule arg_cong)
qed

lemma bytes_of:
  assumes "PAGE_SHIFT cfg + 4 < BITS_PER_LONG cfg" and "\<not> unat v > 16 * PAGE_SIZE cfg"
  shows "to_ulong cfg (uint v) = unat v"
proof -
  have "16 * PAGE_SIZE cfg = 2 ^ (PAGE_SHIFT cfg + 4)"
    by (simp add: PAGE_SIZE_def power_add)
  moreover from assms(1) have "(2::nat) ^ (PAGE_SHIFT cfg + 4) < 2 ^ BITS_PER_LONG cfg"
    by (intro power_strict_increasing) simp_all
  ultimately have "unat v < 2 ^ BITS_PER_LONG cfg"
    using assms(2) by linarith
  then have "unat v mod 2 ^ BITS_PER_LONG cfg = unat v"
    by (rule mod_less)
  then have "int (unat v) mod 2 ^ BITS_PER_LONG cfg = int (unat v)"
    by (metis of_nat_mod of_nat_numeral of_nat_power)
  then show ?thesis
    by (simp only: to_ulong_def uint_nat nat_int)
qed

lemma used_mem_line_eq:
  assumes "PAGE_SHIFT cfg + 4 < BITS_PER_LONG cfg"
  shows "used_mem_line cfg v
     = ''Used object memory is ''
       @ (if unat v > 16 * PAGE_SIZE cfg
          then dec_nat (to_ulong cfg (int (unat v div PAGE_SIZE cfg))) @ '' pages.''
          else dec_nat (unat v) @ '' bytes.'')
       @ NL"
proof (cases "unat v > 16 * PAGE_SIZE cfg")
  case True
  then show ?thesis
    unfolding used_mem_line_def sixteen_pages [OF assms] pages_of by simp
next
  case False
  then show ?thesis
    unfolding used_mem_line_def sixteen_pages [OF assms] bytes_of [OF assms False] by simp
qed

lemma used_emer_line_eq:
  assumes "PAGE_SHIFT cfg + 4 < BITS_PER_LONG cfg"
  shows "used_emer_line cfg v
     = ''Used emergency memory is ''
       @ (if unat v > 16 * PAGE_SIZE cfg
          then dec_nat (to_ulong cfg (int (unat v div PAGE_SIZE cfg))) @ '' pages.'' @ NL
          else dec_nat (unat v) @ '' bytes.'' @ NL @ NL)"
proof (cases "unat v > 16 * PAGE_SIZE cfg")
  case True
  then show ?thesis
    unfolding used_emer_line_def sixteen_pages [OF assms] pages_of by simp
next
  case False
  then show ?thesis
    unfolding used_emer_line_def sixteen_pages [OF assms] bytes_of [OF assms False] by simp
qed

section \<open>The registration loop\<close>

lemma rollback_fold:
  "e \<notin> set ents \<Longrightarrow>
     fold (\<lambda>j fs'. fs'\<lparr>dev_entries := remove_proc_entry e (dev_entries fs')\<rparr>) js
          (fs\<lparr>dev_entries := ents\<rparr>)
       = fs\<lparr>dev_entries := ents\<rparr>"
  by (induction js) (simp_all add: remove_proc_entry_def remove1_idem)

lemma proc_init_loop_fails:
  assumes "\<forall>e \<in> set pre. create_ok env e" and "\<not> create_ok env e"
    and "i = length done" and "tbl = done @ pre @ e # post"
    and "e \<notin> set (dev_entries fs @ pre)"
  shows "proc_init_loop env tbl name i (pre @ e # post) minor fs
     = (- 1, minor\<lparr>dev_root := None\<rparr>,
        fs\<lparr>dev_entries := dev_entries fs @ pre,
            root_dirs := remove_proc_entry name (root_dirs fs)\<rparr>)"
  using assms
proof (induction pre arbitrary: i "done" fs)
  case Nil
  then have "tbl ! i = e"
    by simp
  moreover from Nil have "e \<notin> set (dev_entries fs)"
    by simp
  ultimately show ?case
    using Nil rollback_fold [of e "dev_entries fs" "[0 ..< i]" fs]
    by (simp add: Let_def)
next
  case (Cons p pre)
  from Cons.prems have "create_ok env p"
    by simp
  moreover have "proc_init_loop env tbl name (Suc i) (pre @ e # post) minor
        (fs\<lparr>dev_entries := dev_entries fs @ [p]\<rparr>)
     = (- 1, minor\<lparr>dev_root := None\<rparr>,
        (fs\<lparr>dev_entries := dev_entries fs @ [p]\<rparr>)
          \<lparr>dev_entries := dev_entries (fs\<lparr>dev_entries := dev_entries fs @ [p]\<rparr>) @ pre,
           root_dirs := remove_proc_entry name (root_dirs (fs\<lparr>dev_entries := dev_entries fs @ [p]\<rparr>))\<rparr>)"
    using Cons.prems by (intro Cons.IH [where ?done = "done @ [p]"]) simp_all
  ultimately show ?case
    by simp
qed

lemma proc_init_loop_succeeds:
  "\<forall>e \<in> set es. create_ok env e \<Longrightarrow>
     proc_init_loop env tbl name i es minor fs = (0, minor, fs\<lparr>dev_entries := dev_entries fs @ es\<rparr>)"
  by (induction es arbitrary: i fs) simp_all

lemma distinct_proc_list: "distinct (drm_proc_list cfg)"
  by (simp add: drm_proc_list_def)

lemma remove_all_entries:
  "distinct es \<Longrightarrow>
     fold (\<lambda>e fs'. fs'\<lparr>dev_entries := remove_proc_entry e (dev_entries fs')\<rparr>) es
          (fs\<lparr>dev_entries := es @ rest\<rparr>)
       = fs\<lparr>dev_entries := rest\<rparr>"
  by (induction es arbitrary: fs) (simp_all add: remove_proc_entry_def)

text \<open>
  The rollback of \<^verbatim>\<open>drm_proc_init\<close> in general: when \<^verbatim>\<open>create_proc_entry\<close> fails first
  for the entry \<open>e\<close> of the table, the entries \<open>pre\<close> before it stay registered.
\<close>

lemma proc_init_keeps_registered:
  assumes "mkdir_ok env" and tbl: "drm_proc_list cfg = pre @ e # post"
    and "\<forall>x \<in> set pre. create_ok env x" and "\<not> create_ok env e"
    and "dev_entries fs = []"
  shows "drm_proc_init cfg env minor minor_id fs
     = (- 1, minor\<lparr>dev_root := None\<rparr>,
        fs\<lparr>dev_entries := pre,
            root_dirs := remove_proc_entry (dec_int minor_id) (root_dirs fs @ [dec_int minor_id])\<rparr>)"
proof -
  from distinct_proc_list [of cfg] tbl have "e \<notin> set pre"
    by simp
  with assms have "proc_init_loop env (drm_proc_list cfg) (dec_int minor_id) 0 (pre @ e # post)
        (minor\<lparr>dev_root := Some (dec_int minor_id)\<rparr>)
        (fs\<lparr>root_dirs := root_dirs fs @ [dec_int minor_id]\<rparr>)
     = (- 1, minor\<lparr>dev_root := Some (dec_int minor_id)\<rparr>\<lparr>dev_root := None\<rparr>,
        (fs\<lparr>root_dirs := root_dirs fs @ [dec_int minor_id]\<rparr>)
          \<lparr>dev_entries := dev_entries (fs\<lparr>root_dirs := root_dirs fs @ [dec_int minor_id]\<rparr>) @ pre,
           root_dirs := remove_proc_entry (dec_int minor_id)
                          (root_dirs (fs\<lparr>root_dirs := root_dirs fs @ [dec_int minor_id]\<rparr>))\<rparr>)"
    by (intro proc_init_loop_fails [where ?done = "[]"]) simp_all
  with assms show ?thesis
    by (simp add: drm_proc_init_def Let_def)
qed

section \<open>The concrete devices\<close>

lemma x86_64_simps:
  "DRM_PROC_LIMIT x86_64 = 4016" "BITS_PER_LONG x86_64 = 64" "PAGE_SHIFT x86_64 = 12"
  "DRM_MAX_ORDER x86_64 = 22"
  by (simp_all add: x86_64_def)

lemma name_idle: "name_prints idle_device = [''i915 0000:00:02.0'' @ NL]"
  by (simp add: name_prints_def idle_device_def)

lemma length_gem_header: "length gem_header = 33"
  by (simp add: gem_header_def)

lemma length_queues_header: "length queues_header = 76"
  by (simp add: queues_header_def)

lemma length_gem_line_obj1: "length (gem_line x86_64 obj1) = 33"
  by (simp add: gem_line_def obj1_def length_fmt_d dec_int_def dec_nat.simps as_long_def
      x86_64_simps)

lemma length_concat_replicate: "length (concat (replicate n s)) = n * length s"
  by (induction n) simp_all

lemma crowded_body:
  "report_body x86_64 Gem_names crowded_device = gem_header @ concat (replicate 121 (gem_line x86_64 obj1))"
proof -
  have split: "replicate 121 (gem_line x86_64 obj1)
      = replicate 120 (gem_line x86_64 obj1) @ [gem_line x86_64 obj1]"
    using replicate_add [of 120 1 "gem_line x86_64 obj1"] by simp
  have first: "proc_prints x86_64 0 (replicate 120 (gem_line x86_64 obj1)) gem_header
      = Inr (gem_header @ concat (replicate 120 (gem_line x86_64 obj1)))"
    by (rule prints_buf_fits)
       (simp add: length_concat_replicate length_gem_line_obj1 length_gem_header x86_64_simps)
  have "prints_buf x86_64 (replicate 121 (gem_line x86_64 obj1)) gem_header
      = gem_header @ concat (replicate 120 (gem_line x86_64 obj1)) @ gem_line x86_64 obj1"
    unfolding prints_buf_def split proc_prints_append first
    by (simp add: DRM_PROC_PRINT_def length_concat_replicate length_gem_line_obj1
        length_gem_header x86_64_simps)
  also have "\<dots> = gem_header @ concat (replicate 121 (gem_line x86_64 obj1))"
    unfolding split by simp
  finally show ?thesis
    by (simp add: report_body_def crowded_device_def idle_device_def)
qed

lemma crowded_length: "length (report_body x86_64 Gem_names crowded_device) = 4026"
  by (simp add: crowded_body length_concat_replicate length_gem_line_obj1 length_gem_header)

lemma crowded_walk:
  "gem_walk x86_64 (replicate 121 obj1) [] =
     (0,
      \<lparr>nid_len = 4026, nid_buf = gem_header @ concat (replicate 121 (gem_line x86_64 obj1)),
       nid_eof = True\<rparr>,
      replicate 121 (gem_info_msg x86_64 obj1))"
proof -
  have body: "prints_buf x86_64 (map (gem_line x86_64) (replicate 121 obj1)) gem_header
      = gem_header @ concat (replicate 121 (gem_line x86_64 obj1))"
    using crowded_body by (simp add: report_body_def crowded_device_def idle_device_def)
  then have "int (length (prints_buf x86_64 (map (gem_line x86_64) (replicate 121 obj1)) gem_header))
      > DRM_PROC_LIMIT x86_64"
    by (simp add: length_concat_replicate length_gem_line_obj1 length_gem_header x86_64_simps)
  from gem_walk_over_limit [OF _ this]
  obtain r where "proc_prints x86_64 0 (map (gem_line x86_64) (replicate 121 obj1)) gem_header = Inl r"
    by (auto simp: length_gem_header x86_64_simps)
  with body show ?thesis
    by (simp add: gem_walk_eq length_concat_replicate length_gem_line_obj1 length_gem_header)
qed

text \<open>The \<^verbatim>\<open>clients\<close> report of \<open>busy_device\<close>: the header and 100 lines of 40 bytes.\<close>

lemma length_clients_header: "length clients_header = 33"
  by (simp add: clients_header_def)

lemma length_client_line_client1: "length (client_line client1) = 40"
  by (simp add: client_line_def client1_def length_fmt_d fmt_u_def length_pad_left dec_int_def
      dec_nat.simps)

lemma busy_body:
  "report_body x86_64 Clients busy_device
     = clients_header @ concat (replicate 100 (client_line client1))"
proof -
  have split: "replicate 100 (client_line client1)
      = replicate 99 (client_line client1) @ [client_line client1]"
    using replicate_add [of 99 1 "client_line client1"] by simp
  have "prints_buf x86_64
        ((clients_header # replicate 99 (client_line client1)) @ client_line client1 # []) []
      = [] @ concat (clients_header # replicate 99 (client_line client1)) @ client_line client1"
    by (rule prints_buf_stops)
       (simp_all add: length_concat_replicate length_clients_header length_client_line_client1
          x86_64_simps)
  then show ?thesis
    by (simp add: report_body_def clients_prints_def busy_device_def idle_device_def split)
qed

lemma busy_length: "length (report_body x86_64 Clients busy_device) = 4033"
  by (simp add: busy_body length_concat_replicate length_clients_header
      length_client_line_client1)






















text \<open>The memory of \<open>memory_device\<close>: 17 pages of bytes, and 5 bytes.\<close>

lemma memory_mem:
  "mem memory_device = \<lparr>used_mem = 69632, used_emer = 5, low_mem = 4096000,
     high_mem = 8192000, emer_mem = 12288000\<rparr>"
  "fm memory_device = \<lparr>fm_initialized = False, fm_count = 0\<rparr>"
  "bm memory_device = \<lparr>bm_initialized = False, bm_count = 0, cur_pages = 0\<rparr>"
  by (simp_all add: memory_device_def idle_device_def)

lemma memory_fits:
  "int (length (concat (objects_prints x86_64 memory_device))) \<le> DRM_PROC_LIMIT x86_64"
  by (simp add: objects_prints_def objects_head_def objects_tail_def used_mem_line_def
      used_emer_line_def memory_mem to_ulong_def PAGE_SIZE_def x86_64_simps dec_nat.simps
      digit_char_def)

section \<open>C1: a registration that fails\<close>

text \<open>
  Claim C1 says that when the registration of the N-th entry fails, \<^verbatim>\<open>drm_proc_init\<close>
  unregisters the N - 1 entries registered before it, removes the directory and
  returns a failure, and no entry stays registered. The rollback loop of the code
  counts \<^verbatim>\<open>j\<close> from 0 to \<^verbatim>\<open>i - 1\<close> but removes \<^verbatim>\<open>drm_proc_list[i].name\<close>, the entry that
  was not created, each time; the entries before it stay. When \<^verbatim>\<open>create_proc_entry\<close>
  fails for \<^verbatim>\<open>mem\<close>, the second entry, the call returns -1, removes the directory and
  clears \<^verbatim>\<open>dev_root\<close>, and \<^verbatim>\<open>name\<close> is still registered.
\<close>

theorem proc_init_rollback_keeps_entries:
  "drm_proc_init x86_64 mem_fails \<lparr>dev_root = None, minor_idx = 0\<rparr> 0
       \<lparr>root_dirs = [], dev_entries = []\<rparr>
     = (- 1, \<lparr>dev_root = None, minor_idx = 0\<rparr>, \<lparr>root_dirs = [], dev_entries = [''name'']\<rparr>)"
  by (simp add: drm_proc_init_def mem_fails_def drm_proc_list_def x86_64_def dec_int_def
      dec_nat.simps digit_char_def remove_proc_entry_def)

section \<open>C2: a read at or past the end of the report\<close>

text \<open>
  Claim C2 says that a read at an offset within the limit and not below the length
  of the regenerated report returns zero bytes and sets end-of-report. The code
  returns \<^verbatim>\<open>len - offset\<close> there, which is negative when the offset is above the
  length: the \<^verbatim>\<open>name\<close> report of \<open>idle_device\<close> is 18 bytes long, and a read at
  offset 19 returns -1.
\<close>

theorem read_past_end_negative:
  "19 \<le> DRM_PROC_LIMIT x86_64
   \<and> int (length (out_buf (read_report x86_64 Name idle_device 19 10))) \<le> 19
   \<and> ret_val (read_report x86_64 Name idle_device 19 10) = - 1"
  by (simp add: read_report.simps drm_name_info_def proc_read_def name_idle DRM_PROC_PRINT_def
      x86_64_def proc_tail_def)

text \<open>
  Claim C2, amended: for every report, device, offset within the limit and request
  that is not negative, a read at an offset that is not below the length of the
  regenerated report sets end-of-report and hands over no bytes; its return value is
  \<^verbatim>\<open>len - offset\<close>, zero when the offset is the length and negative above it (the
  \<^verbatim>\<open>bufs\<close> report of a device without DMA returns 0 at every offset).
\<close>

theorem read_at_or_past_end:
  assumes "offset \<le> DRM_PROC_LIMIT cfg" and "0 \<le> request"
    and "int (length (out_buf (read_report cfg rep dev offset request))) \<le> offset"
  shows "eof_flag (read_report cfg rep dev offset request)
     \<and> returned_bytes offset request (read_report cfg rep dev offset request) = []
     \<and> ret_val (read_report cfg rep dev offset request) \<le> 0
     \<and> ret_val (read_report cfg rep dev offset request) =
         (if rep = Bufs \<and> dma dev = None then 0
          else int (length (out_buf (read_report cfg rep dev offset request))) - offset)"
proof (cases "rep = Bufs \<and> dma dev = None")
  case True
  then show ?thesis
    by (simp add: read_report_shape proc_past_limit_def returned_bytes_def)
next
  case False
  with assms(1) have body: "out_buf (read_report cfg rep dev offset request) = report_body cfg rep dev"
    by (auto simp: out_buf_read_report)
  with assms(3) have "int (length (report_body cfg rep dev)) \<le> offset"
    by simp
  with assms(1,2) False show ?thesis
    by (auto simp: read_report_shape proc_tail_def returned_bytes_def)
qed

theorem read_at_or_past_end_witness:
  "eof_flag (read_report x86_64 Name idle_device 18 10)
   \<and> returned_bytes 18 10 (read_report x86_64 Name idle_device 18 10) = []
   \<and> ret_val (read_report x86_64 Name idle_device 18 10) = 0"
  using read_at_or_past_end [of 18 x86_64 10 Name idle_device]
  by (simp add: read_report.simps drm_name_info_def proc_read_def name_idle DRM_PROC_PRINT_def
      x86_64_def proc_tail_def)

section \<open>C3: reading a report in chunks\<close>

text \<open>
  Claim C3 says that for every report and every chunk size \<open>k \<ge> 1\<close> the chunks read
  at the offsets 0, \<open>k\<close>, \<open>2k\<close>, ... until end-of-report make up the report a single
  read of the full length returns. It fails for a report that passes
  \<^verbatim>\<open>DRM_PROC_LIMIT\<close>, 4016 here. The \<^verbatim>\<open>gem_names\<close> generator does not return early when
  its length passes the limit, and a read at an offset above the limit returns
  nothing: with 121 named objects the report is 4026 bytes long, a single read of
  4026 bytes returns them all, and a reader with chunks of 4017 bytes gets the first
  4017 only (its second read, at offset 4017, is past the limit). A generator of
  \<^verbatim>\<open>DRM_PROC_PRINT\<close> statements returns the whole length and sets \<^verbatim>\<open>*eof\<close> as soon as a
  print passes the limit, whatever the request: with 100 clients the \<^verbatim>\<open>clients\<close>
  report is 4033 bytes long, a single read of 4033 bytes returns them all, and a
  reader with chunks of 10 bytes is told end-of-report by its first read and has 10
  bytes.
\<close>

theorem chunked_read_truncated:
  "length (read_chunks x86_64 Gem_names crowded_device 4017 0) = 4017
   \<and> length (returned_bytes 0 4026 (read_report x86_64 Gem_names crowded_device 0 4026)) = 4026
   \<and> eof_flag (read_report x86_64 Gem_names crowded_device 0 4026)
   \<and> read_chunks x86_64 Gem_names crowded_device 4017 0
       \<noteq> returned_bytes 0 4026 (read_report x86_64 Gem_names crowded_device 0 4026)
   \<and> length (read_chunks x86_64 Clients busy_device 10 0) = 10
   \<and> length (returned_bytes 0 4033 (read_report x86_64 Clients busy_device 0 4033)) = 4033
   \<and> eof_flag (read_report x86_64 Clients busy_device 0 4033)
   \<and> read_chunks x86_64 Clients busy_device 10 0
       \<noteq> returned_bytes 0 4033 (read_report x86_64 Clients busy_device 0 4033)"
proof -
  note lim = x86_64_simps(1)
  have one: "read_report x86_64 Gem_names crowded_device 0 4017
      = \<lparr>ret_val = 4017, eof_flag = False, start_off = Some 0,
          out_buf = report_body x86_64 Gem_names crowded_device\<rparr>"
    by (simp add: read_report_shape lim proc_tail_def crowded_length)
  have two: "read_report x86_64 Gem_names crowded_device 4017 4017 = proc_past_limit"
    by (rule read_report_past_limit) (simp add: lim)
  have chunks: "read_chunks x86_64 Gem_names crowded_device 4017 0
      = take 4017 (report_body x86_64 Gem_names crowded_device)"
    by (subst read_chunks.simps, simp add: one, subst read_chunks.simps)
       (simp add: two returned_bytes_def proc_past_limit_def)
  have single: "read_report x86_64 Gem_names crowded_device 0 4026
      = \<lparr>ret_val = 4026, eof_flag = True, start_off = Some 0,
          out_buf = report_body x86_64 Gem_names crowded_device\<rparr>"
    by (simp add: read_report_shape lim proc_tail_def crowded_length)
  have l1: "length (read_chunks x86_64 Gem_names crowded_device 4017 0) = 4017"
    by (simp add: chunks crowded_length)
  have l2: "length (returned_bytes 0 4026 (read_report x86_64 Gem_names crowded_device 0 4026))
      = 4026"
    by (simp add: single returned_bytes_def crowded_length)
  from l1 l2 have n1: "read_chunks x86_64 Gem_names crowded_device 4017 0
       \<noteq> returned_bytes 0 4026 (read_report x86_64 Gem_names crowded_device 0 4026)"
    by auto
  have early: "read_report x86_64 Clients busy_device 0 req
      = \<lparr>ret_val = 4033, eof_flag = True, start_off = Some 0,
          out_buf = report_body x86_64 Clients busy_device\<rparr>" for req
    by (simp add: read_report_shape lim busy_length)
  have l3: "length (read_chunks x86_64 Clients busy_device 10 0) = 10"
    by (subst read_chunks.simps) (simp add: early returned_bytes_def busy_length)
  have l4: "length (returned_bytes 0 4033 (read_report x86_64 Clients busy_device 0 4033)) = 4033"
    by (simp add: early returned_bytes_def busy_length)
  from l3 l4 have n2: "read_chunks x86_64 Clients busy_device 10 0
       \<noteq> returned_bytes 0 4033 (read_report x86_64 Clients busy_device 0 4033)"
    by auto
  from l1 l2 single n1 l3 l4 early n2 show ?thesis
    by simp
qed

text \<open>
  Claim C3, amended: for every report whose length is at most \<^verbatim>\<open>DRM_PROC_LIMIT\<close>
  (\<^verbatim>\<open>DRM_PROC_LIMIT + 1\<close> for \<^verbatim>\<open>gem_names\<close>) or at most one chunk, and for every chunk
  size \<open>k \<ge> 1\<close>, the chunks read at the offsets 0, \<open>k\<close>, \<open>2k\<close>, ... until
  end-of-report make up, byte for byte, what the generator wrote, and so does a
  single read of the full length at offset 0, the device being the same at every
  call. The length of the report is the length of what a call at offset 0 writes.
\<close>

theorem chunked_read_whole:
  assumes k: "1 \<le> k"
    and short: "int (length (out_buf (read_report cfg rep dev 0 k)))
        \<le> DRM_PROC_LIMIT cfg + (if rep = Gem_names then 1 else 0)
      \<or> int (length (out_buf (read_report cfg rep dev 0 k))) \<le> k"
  shows "read_chunks cfg rep dev k 0 = out_buf (read_report cfg rep dev 0 k)
     \<and> returned_bytes 0 (int (length (out_buf (read_report cfg rep dev 0 k))))
          (read_report cfg rep dev 0 (int (length (out_buf (read_report cfg rep dev 0 k)))))
         = out_buf (read_report cfg rep dev 0 k)"
proof (cases "0 > DRM_PROC_LIMIT cfg \<or> (rep = Bufs \<and> dma dev = None)")
  case True
  then have "\<And>req. read_report cfg rep dev 0 req = proc_past_limit"
    by (simp add: read_report_shape)
  then show ?thesis
    by (subst read_chunks.simps) (simp add: proc_past_limit_def returned_bytes_def)
next
  case False
  let ?body = "report_body cfg rep dev"
  from False have body: "\<And>req. out_buf (read_report cfg rep dev 0 req) = ?body"
    by (auto simp: out_buf_read_report)
  show ?thesis
  proof (cases "rep \<noteq> Gem_names \<and> int (length ?body) > DRM_PROC_LIMIT cfg")
    case True
    with False have early: "\<And>req. read_report cfg rep dev 0 req =
        \<lparr>ret_val = int (length ?body), eof_flag = True, start_off = Some 0, out_buf = ?body\<rparr>"
      by (auto simp: read_report_shape)
    from True short have "int (length ?body) \<le> k"
      by (auto simp: body)
    with early show ?thesis
      by (subst read_chunks.simps) (simp add: returned_bytes_def)
  next
    case tail: False
    with False have shape: "\<And>off req. read_report cfg rep dev off req =
        (if off > DRM_PROC_LIMIT cfg then proc_past_limit else proc_tail off req ?body)"
      by (auto simp: read_report_shape)
    have single: "returned_bytes 0 (int (length ?body)) (read_report cfg rep dev 0 (int (length ?body)))
        = ?body"
      using False by (simp add: shape proc_tail_def returned_bytes_def)
    have "read_chunks cfg rep dev k 0 = ?body"
    proof (cases "int (length ?body) \<le> k")
      case True
      with False show ?thesis
        by (subst read_chunks.simps) (simp add: shape proc_tail_def returned_bytes_def)
    next
      case False
      with tail short have len: "int (length ?body) \<le> DRM_PROC_LIMIT cfg + 1"
        by (auto simp: body split: if_splits)
      have "read_chunks cfg rep dev k 0 = drop (nat 0) ?body"
        by (rule read_chunks_tail [OF shape k len]) simp_all
      then show ?thesis
        by simp
    qed
    with single show ?thesis
      by (simp add: body)
  qed
qed

theorem chunked_read_whole_witness:
  "read_chunks x86_64 Gem_names (idle_device\<lparr>object_name_idr := [obj1]\<rparr>) 7 0
     = gem_header @ gem_line x86_64 obj1
   \<and> read_chunks x86_64 Name idle_device 5 0 = ''i915 0000:00:02.0'' @ NL"
proof -
  have "out_buf (read_report x86_64 Gem_names (idle_device\<lparr>object_name_idr := [obj1]\<rparr>) 0 7)
      = gem_header @ gem_line x86_64 obj1"
    by (simp add: out_buf_read_report report_body_def prints_buf_def DRM_PROC_PRINT_def
        length_gem_header length_gem_line_obj1 x86_64_simps)
  with chunked_read_whole [of 7 x86_64 Gem_names "idle_device\<lparr>object_name_idr := [obj1]\<rparr>"]
  have gem: "read_chunks x86_64 Gem_names (idle_device\<lparr>object_name_idr := [obj1]\<rparr>) 7 0
      = gem_header @ gem_line x86_64 obj1"
    by (simp add: length_gem_header length_gem_line_obj1 x86_64_simps)
  have "out_buf (read_report x86_64 Name idle_device 0 5) = ''i915 0000:00:02.0'' @ NL"
    by (simp add: out_buf_read_report report_body_def prints_buf_def DRM_PROC_PRINT_def
        name_idle x86_64_simps)
  with chunked_read_whole [of 5 x86_64 Name idle_device]
  have "read_chunks x86_64 Name idle_device 5 0 = ''i915 0000:00:02.0'' @ NL"
    by (simp add: x86_64_simps)
  with gem show ?thesis
    by simp
qed

section \<open>C4: the named-object listing past the limit\<close>

text \<open>
  Claim C4: in the walk of \<^verbatim>\<open>drm_gem_name_info\<close> over any registry, once the length
  \<^verbatim>\<open>nid.len\<close> is above \<^verbatim>\<open>DRM_PROC_LIMIT\<close> (here after the entries \<open>xs\<close>) the flag
  \<^verbatim>\<open>nid.eof\<close> is set; over any further entries \<open>ys\<close> the walk goes on (the callback
  logs each of them) and returns 0, and it leaves length, buffer and flag as they
  were: nothing is appended. The buffer is the header and whole lines of the first
  entries. The header is taken to fit the limit.
\<close>

theorem gem_names_overflow_stops:
  assumes hdr: "int (length gem_header) \<le> DRM_PROC_LIMIT cfg"
    and walk: "gem_walk cfg xs klog = (r, nid, klog')"
    and over: "nid_len nid > DRM_PROC_LIMIT cfg"
  shows "nid_eof nid
     \<and> gem_walk cfg (xs @ ys) klog = (0, nid, klog' @ map (gem_info_msg cfg) ys)
     \<and> nid_len nid = int (length (nid_buf nid))
     \<and> (\<exists>n \<le> length xs. nid_buf nid = gem_header @ concat (map (gem_line cfg) (take n xs)))"
proof -
  let ?lines = "map (gem_line cfg) xs"
  from walk have r: "r = 0" and log: "klog' = klog @ map (gem_info_msg cfg) xs"
    and nid: "nid = \<lparr>nid_len = int (length (prints_buf cfg ?lines gem_header)),
       nid_buf = prints_buf cfg ?lines gem_header,
       nid_eof = (case proc_prints cfg 0 ?lines gem_header of Inl r \<Rightarrow> True | Inr b \<Rightarrow> False)\<rparr>"
    by (simp_all add: gem_walk_eq)
  from over nid have "int (length (prints_buf cfg ?lines gem_header)) > DRM_PROC_LIMIT cfg"
    by simp
  from gem_walk_over_limit [OF hdr this] nid have eof: "nid_eof nid"
    by auto
  have "gem_walk cfg (xs @ ys) klog = idr_for_each cfg ys (snd (gem_walk cfg xs klog))"
    by (simp add: gem_walk_def idr_for_each_append)
  also have "\<dots> = (0, nid, klog' @ map (gem_info_msg cfg) ys)"
    using walk eof by (simp add: idr_for_each_eof)
  finally have more: "gem_walk cfg (xs @ ys) klog = (0, nid, klog' @ map (gem_info_msg cfg) ys)" .
  from prints_buf_prefix [of ?lines cfg gem_header]
  obtain n where "n \<le> length xs"
    and "prints_buf cfg ?lines gem_header = gem_header @ concat (take n ?lines)"
    by auto
  then have "\<exists>n \<le> length xs. nid_buf nid = gem_header @ concat (map (gem_line cfg) (take n xs))"
    using nid by (auto simp: take_map)
  with eof more nid show ?thesis
    by simp
qed

theorem gem_names_overflow_stops_witness:
  "gem_walk x86_64 (replicate 121 obj1 @ [obj1, obj1]) [] =
     (0,
      \<lparr>nid_len = 4026, nid_buf = gem_header @ concat (replicate 121 (gem_line x86_64 obj1)),
       nid_eof = True\<rparr>,
      replicate 121 (gem_info_msg x86_64 obj1) @ [gem_info_msg x86_64 obj1, gem_info_msg x86_64 obj1])"
  using gem_names_overflow_stops [OF _ crowded_walk, of "[obj1, obj1]"]
  by (simp add: length_gem_header x86_64_simps)

section \<open>C5: the length and the limit\<close>

text \<open>
  Claim C5 says that the length written never exceeds the limit during a generation,
  and that the named-object enumerator appends nothing once its flag is set. The
  limit is tested after each append, so the append that passes it has been made: with
  121 named objects on a kernel whose limit is 4016, \<^verbatim>\<open>nid.len\<close> ends at 4026.
\<close>

theorem gem_names_length_over_limit:
  "nid_len (fst (snd (gem_walk x86_64 (object_name_idr crowded_device) []))) = 4026
   \<and> DRM_PROC_LIMIT x86_64 = 4016"
  by (simp add: crowded_device_def idle_device_def crowded_walk x86_64_simps)

text \<open>
  Claim C5, amended: the length is within the limit before every append, and only
  the last append of a generation can take it above the limit. The buffer a call
  leaves is the first \<open>n\<close> texts of the report, for some \<open>n\<close>, and every shorter run of
  them is within the limit; the named-object callback leaves length, buffer and flag
  alone once the flag is set. The header of \<^verbatim>\<open>gem_names\<close>, which is not tested against
  the limit, is taken to fit it.
\<close>

theorem length_within_limit_before_append:
  assumes hdr: "int (length gem_header) \<le> DRM_PROC_LIMIT cfg"
  shows "(\<exists>n \<le> length (report_items cfg rep dev).
            out_buf (read_report cfg rep dev offset request) = concat (take n (report_items cfg rep dev))
            \<and> (\<forall>m < n. int (length (concat (take m (report_items cfg rep dev)))) \<le> DRM_PROC_LIMIT cfg))
     \<and> (nid_eof nid \<longrightarrow> fst (snd (drm_gem_one_name_info cfg obj (nid, klog))) = nid)"
proof -
  have "nid_eof nid \<longrightarrow> fst (snd (drm_gem_one_name_info cfg obj (nid, klog))) = nid"
    by (simp add: drm_gem_one_name_info_def Let_def)
  with buffer_prefix_of_items [OF hdr, of rep dev offset request] show ?thesis
    by blast
qed

theorem length_within_limit_before_append_witness:
  "(\<exists>n \<le> length (report_items x86_64 Gem_names crowded_device).
      out_buf (read_report x86_64 Gem_names crowded_device 0 4096)
        = concat (take n (report_items x86_64 Gem_names crowded_device))
      \<and> (\<forall>m < n. int (length (concat (take m (report_items x86_64 Gem_names crowded_device)))) \<le> 4016))
   \<and> fst (snd (drm_gem_one_name_info x86_64 obj1
         (\<lparr>nid_len = 4026, nid_buf = gem_header @ concat (replicate 121 (gem_line x86_64 obj1)),
           nid_eof = True\<rparr>, [])))
      = \<lparr>nid_len = 4026, nid_buf = gem_header @ concat (replicate 121 (gem_line x86_64 obj1)),
          nid_eof = True\<rparr>"
  using length_within_limit_before_append [of x86_64 Gem_names crowded_device 0 4096
      "\<lparr>nid_len = 4026, nid_buf = gem_header @ concat (replicate 121 (gem_line x86_64 obj1)),
           nid_eof = True\<rparr>" obj1 "[]"]
  by (simp add: length_gem_header x86_64_simps)

section \<open>C6: the extent of the writes\<close>




section \<open>C7: pages or bytes\<close>

text \<open>
  Claim C7: in the \<^verbatim>\<open>objects\<close> report the used-memory line gives pages when the value
  is above 16 pages of bytes and the bytes themselves otherwise, and the line of the
  emergency memory follows the same rule on its own value. The configuration is one
  where 16 pages are a value of \<^verbatim>\<open>unsigned long\<close>, and the report fits the limit.
\<close>

theorem objects_used_memory_unit:
  assumes cfg: "PAGE_SHIFT cfg + 4 < BITS_PER_LONG cfg"
    and off: "offset \<le> DRM_PROC_LIMIT cfg"
    and fits: "int (length (concat (objects_prints cfg dev))) \<le> DRM_PROC_LIMIT cfg"
  shows "out_buf (drm__objects_info cfg dev offset request)
     = concat (objects_head dev)
       @ ''Used object memory is ''
       @ (if unat (used_mem (mem dev)) > 16 * PAGE_SIZE cfg
          then dec_nat (to_ulong cfg (int (unat (used_mem (mem dev)) div PAGE_SIZE cfg)))
               @ '' pages.''
          else dec_nat (unat (used_mem (mem dev))) @ '' bytes.'')
       @ NL
       @ ''Used emergency memory is ''
       @ (if unat (used_emer (mem dev)) > 16 * PAGE_SIZE cfg
          then dec_nat (to_ulong cfg (int (unat (used_emer (mem dev)) div PAGE_SIZE cfg)))
               @ '' pages.'' @ NL
          else dec_nat (unat (used_emer (mem dev))) @ '' bytes.'' @ NL @ NL)
       @ concat (objects_tail cfg dev)"
proof -
  have "proc_prints cfg offset (objects_prints cfg dev) [] = Inr ([] @ concat (objects_prints cfg dev))"
    using fits by (intro prints_buf_fits) simp
  with off have out: "out_buf (drm__objects_info cfg dev offset request) = concat (objects_prints cfg dev)"
    by (simp add: drm__objects_info_def proc_read_def proc_tail_def)
  show ?thesis
    unfolding out objects_prints_def used_mem_line_eq [OF cfg] used_emer_line_eq [OF cfg]
    by simp
qed

theorem objects_used_memory_unit_witness:
  "out_buf (drm__objects_info x86_64 memory_device 0 4096)
     = concat (objects_head memory_device)
       @ ''Used object memory is 17 pages.'' @ NL
       @ ''Used emergency memory is 5 bytes.'' @ NL @ NL
       @ concat (objects_tail x86_64 memory_device)"
proof -
  have cfg: "PAGE_SHIFT x86_64 + 4 < BITS_PER_LONG x86_64"
    and off: "0 \<le> DRM_PROC_LIMIT x86_64"
    by (simp_all add: x86_64_simps)
  from objects_used_memory_unit [OF cfg off memory_fits, of 4096] show ?thesis
    by (simp add: memory_mem to_ulong_def PAGE_SIZE_def x86_64_simps dec_nat.simps digit_char_def)
qed

section \<open>C8: the rows of the buffer table\<close>



section \<open>C9: the use count of a queue\<close>

text \<open>
  Claim C9: \<^verbatim>\<open>drm__queues_info\<close> increments the use count of each queue before the
  print that reads the queue and decrements it after the print, also when the print
  returns early, so that the device a call leaves is the device it found, whichever
  way it returns. What the call prints for a queue is the queue with its use count
  incremented.
\<close>

theorem queues_use_count_restored:
  "fst (queues_loop cfg offset i qs b) = qs
   \<and> fst (drm__queues_info cfg dev offset request) = dev
   \<and> snd (drm__queues_info cfg dev offset request)
       = proc_read cfg offset request (queues_header # queue_lines 0 (queuelist dev))"
  by (simp add: queues_loop_eq drm__queues_info_eq)

theorem queues_use_count_restored_witness:
  "fst (drm__queues_info tiny_limit queue_device 0 10) = queue_device
   \<and> eof_flag (snd (drm__queues_info tiny_limit queue_device 0 10))
   \<and> ret_val (snd (drm__queues_info tiny_limit queue_device 0 10)) = 119
   \<and> fst (drm__queues_info x86_64 queue_device 0 10) = queue_device
   \<and> \<not> eof_flag (snd (drm__queues_info x86_64 queue_device 0 10))
   \<and> ret_val (snd (drm__queues_info x86_64 queue_device 0 10)) = 10"
proof -
  have line: "length (queue_line 0 (hd (queuelist queue_device)\<lparr>use_count := atomic_inc 2\<rparr>)) = 43"
    by (simp add: queue_device_def queue_line_def length_fmt_d length_fmt_0x dec_int_def
        dec_nat.simps hex_nat.simps atomic_inc_def)
  have items: "queue_lines 0 (queuelist queue_device)
      = [queue_line 0 (hd (queuelist queue_device)\<lparr>use_count := atomic_inc 2\<rparr>)]"
    by (simp add: queue_device_def)
  show ?thesis
    using queues_use_count_restored [of tiny_limit 0 0 "[]" "[]" queue_device 10]
      queues_use_count_restored [of x86_64 0 0 "[]" "[]" queue_device 10]
    by (simp add: items proc_read_def DRM_PROC_PRINT_def proc_tail_def line length_queues_header
        tiny_limit_def x86_64_def)
qed

section \<open>C10: the buffer report of a device without DMA\<close>

text \<open>
  Claim C10: when \<^verbatim>\<open>dev->dma\<close> is \<^verbatim>\<open>NULL\<close>, \<^verbatim>\<open>drm__bufs_info\<close> returns 0 with
  end-of-report set at every offset and request and writes nothing, not even the
  header; with a DMA structure that has no buffers it writes the header and the two
  line ends that close the two listings (the offset being within the limit, and these
  45 bytes too).
\<close>

theorem bufs_without_dma:
  "(dma dev = None \<longrightarrow>
      drm__bufs_info cfg dev offset request
        = \<lparr>ret_val = 0, eof_flag = True, start_off = None, out_buf = []\<rparr>)
   \<and> (\<forall>d. dma dev = Some d \<and> (\<forall>i \<le> DRM_MAX_ORDER cfg. buf_count (bufs d i) = 0) \<and> buflist d = []
          \<and> offset \<le> DRM_PROC_LIMIT cfg \<and> int (length bufs_header) + 2 \<le> DRM_PROC_LIMIT cfg
        \<longrightarrow> out_buf (drm__bufs_info cfg dev offset request) = bufs_header @ NL @ NL)"
proof (intro conjI impI allI)
  assume "dma dev = None"
  then show "drm__bufs_info cfg dev offset request
        = \<lparr>ret_val = 0, eof_flag = True, start_off = None, out_buf = []\<rparr>"
    by (simp add: drm__bufs_info_def proc_past_limit_def)
next
  fix d
  assume a: "dma dev = Some d \<and> (\<forall>i \<le> DRM_MAX_ORDER cfg. buf_count (bufs d i) = 0) \<and> buflist d = []
          \<and> offset \<le> DRM_PROC_LIMIT cfg \<and> int (length bufs_header) + 2 \<le> DRM_PROC_LIMIT cfg"
  then have "\<forall>i \<in> set [0 ..< Suc (DRM_MAX_ORDER cfg)]. buf_count (bufs d i) = 0"
    by auto
  then have "bufs_rows cfg d = []"
    unfolding bufs_rows_def by (induction "[0 ..< Suc (DRM_MAX_ORDER cfg)]") auto
  with a have prints: "bufs_prints cfg d = [bufs_header, NL, NL]"
    by (simp add: bufs_prints_def)
  have "proc_prints cfg offset (bufs_prints cfg d) [] = Inr ([] @ concat (bufs_prints cfg d))"
    using a by (intro prints_buf_fits) (simp add: prints)
  with a show "out_buf (drm__bufs_info cfg dev offset request) = bufs_header @ NL @ NL"
    by (simp add: drm__bufs_info_def proc_read_def proc_tail_def prints)
qed

theorem bufs_without_dma_witness:
  "drm__bufs_info x86_64 (idle_device\<lparr>dma := None\<rparr>) 0 100
     = \<lparr>ret_val = 0, eof_flag = True, start_off = None, out_buf = []\<rparr>
   \<and> out_buf (drm__bufs_info x86_64 idle_device 0 100) = bufs_header @ NL @ NL"
  using bufs_without_dma [of "idle_device\<lparr>dma := None\<rparr>" x86_64 0 100]
    bufs_without_dma [of idle_device x86_64 0 100]
  by (simp add: idle_device_def bufs_header_def x86_64_def)

section \<open>Further properties\<close>

text \<open>
  For the named-object listing the bound needs nothing of the device: a line is at
  most 54 bytes long when \<^verbatim>\<open>long\<close> has at most 64 bits, so whatever the registry holds
  the listing writes at most 55 bytes, the terminating NUL among them, above
  \<^verbatim>\<open>DRM_PROC_LIMIT\<close> (the header being within the limit).
\<close>

theorem gem_names_writes_bounded:
  assumes "BITS_PER_LONG cfg \<le> 64" and "int (length gem_header) \<le> DRM_PROC_LIMIT cfg"
  shows "int (length (out_buf (read_report cfg Gem_names dev offset request))) + 1
     \<le> DRM_PROC_LIMIT cfg + 55"
proof -
  have "length (gem_line cfg obj) < 55" for obj
    using length_gem_line [OF assms(1), of obj] by simp
  then have "\<forall>s \<in> set (report_items cfg Gem_names dev). int (length s) < 55"
    by (auto simp: length_gem_header)
  from writes_within_slack [OF assms(2) _ this] show ?thesis
    by simp
qed

theorem gem_names_writes_bounded_witness:
  "int (length (out_buf (read_report x86_64 Gem_names crowded_device 0 4096))) + 1 \<le> 4071"
  using gem_names_writes_bounded [of x86_64 crowded_device 0 4096]
  by (simp add: length_gem_header x86_64_simps)

text \<open>
  Registration and teardown: when every \<^verbatim>\<open>create_proc_entry\<close> succeeds,
  \<^verbatim>\<open>drm_proc_init\<close> returns 0 and leaves the directory and every entry of the table
  registered, and \<^verbatim>\<open>drm_proc_cleanup\<close> then returns 0 and removes them all (the
  directory being named after the minor's index); on a minor whose \<^verbatim>\<open>dev_root\<close> is
  \<^verbatim>\<open>NULL\<close>, \<^verbatim>\<open>drm_proc_cleanup\<close> returns 0 and changes nothing.
\<close>

theorem proc_init_then_cleanup:
  assumes ok: "mkdir_ok env" "\<forall>e \<in> set (drm_proc_list cfg). create_ok env e"
    and fresh: "dec_int (minor_idx minor) \<notin> set dirs"
  shows "drm_proc_init cfg env minor (minor_idx minor) \<lparr>root_dirs = dirs, dev_entries = []\<rparr>
       = (0, minor\<lparr>dev_root := Some (dec_int (minor_idx minor))\<rparr>,
          \<lparr>root_dirs = dirs @ [dec_int (minor_idx minor)], dev_entries = drm_proc_list cfg\<rparr>)
     \<and> drm_proc_cleanup cfg (minor\<lparr>dev_root := Some (dec_int (minor_idx minor))\<rparr>) True
          \<lparr>root_dirs = dirs @ [dec_int (minor_idx minor)], dev_entries = drm_proc_list cfg\<rparr>
       = (0, \<lparr>root_dirs = dirs, dev_entries = []\<rparr>)
     \<and> drm_proc_cleanup cfg (minor\<lparr>dev_root := None\<rparr>) root_present fs = (0, fs)"
proof -
  have "remove1 (dec_int (minor_idx minor)) (dirs @ [dec_int (minor_idx minor)]) = dirs"
    using fresh by (simp add: remove1_append)
  moreover have "fold (\<lambda>e fs'. fs'\<lparr>dev_entries := remove_proc_entry e (dev_entries fs')\<rparr>)
        (drm_proc_list cfg)
        \<lparr>root_dirs = dirs @ [dec_int (minor_idx minor)], dev_entries = drm_proc_list cfg\<rparr>
      = \<lparr>root_dirs = dirs @ [dec_int (minor_idx minor)], dev_entries = []\<rparr>"
    using remove_all_entries [OF distinct_proc_list [of cfg], where rest = "[]"
        and fs = "\<lparr>root_dirs = dirs @ [dec_int (minor_idx minor)], dev_entries = []\<rparr>"]
    by simp
  ultimately show ?thesis
    using ok by (simp add: drm_proc_init_def drm_proc_cleanup_def proc_init_loop_succeeds Let_def
        remove_proc_entry_def)
qed

theorem proc_init_then_cleanup_witness:
  "drm_proc_cleanup x86_64 \<lparr>dev_root = Some ''0'', minor_idx = 0\<rparr> True
       \<lparr>root_dirs = [''0''], dev_entries = drm_proc_list x86_64\<rparr>
     = (0, \<lparr>root_dirs = [], dev_entries = []\<rparr>)"
  using proc_init_then_cleanup [of "\<lparr>mkdir_ok = True, create_ok = (\<lambda>e. True)\<rparr>" x86_64
      "\<lparr>dev_root = None, minor_idx = 0\<rparr>" "[]"]
  by (simp add: dec_int_def dec_nat.simps digit_char_def)

end
